theory Spec2Isabelle
  imports Main
begin

section \<open>The element type: IEEE-754 binary32\<close>

text \<open>
  The tutorial copies arrays of \<^verbatim>\<open>float\<close>. A value is kept as its three bit fields
  (sign, biased exponent of 8 bits, fraction of 23 bits), so that equality of two values
  of the datatype is bit-identity, while the comparison the verification loop uses
  (\<^verbatim>\<open>!=\<close> on floats) is the IEEE one: a NaN differs from everything, itself included,
  and the two zeros are equal.
\<close>

datatype float32 = Float32 (sign_bit: bool) (biased_exp: nat) (fraction: nat)

definition is_nan :: "float32 \<Rightarrow> bool" where
  "is_nan f = (biased_exp f = 255 \<and> fraction f \<noteq> 0)"

definition is_zero :: "float32 \<Rightarrow> bool" where
  "is_zero f = (biased_exp f = 0 \<and> fraction f = 0)"

definition float_eq :: "float32 \<Rightarrow> float32 \<Rightarrow> bool" where
  "float_eq a b = (\<not> is_nan a \<and> \<not> is_nan b \<and> (a = b \<or> (is_zero a \<and> is_zero b)))"

definition float_ne :: "float32 \<Rightarrow> float32 \<Rightarrow> bool" where
  "float_ne a b = (\<not> float_eq a b)"

text \<open>Position of the highest set bit.\<close>

fun ilog2 :: "nat \<Rightarrow> nat" where
  "ilog2 n = (if n < 2 then 0 else Suc (ilog2 (n div 2)))"

declare ilog2.simps [simp del]

text \<open>
  \<^verbatim>\<open>static_cast<float>(i)\<close> for an unsigned index: exact below \<open>2^24\<close>, rounded to
  nearest (ties to even) above, infinity beyond the largest finite value.
\<close>

definition float_of_nat :: "nat \<Rightarrow> float32" where
  "float_of_nat i =
     (if i = 0 then Float32 False 0 0
      else let e = ilog2 i in
        if e \<le> 23 then Float32 False (127 + e) (i * 2 ^ (23 - e) - 2 ^ 23)
        else let sh = e - 23;
                 q = i div 2 ^ sh;
                 r = i mod 2 ^ sh;
                 half = 2 ^ (sh - 1);
                 q' = (if half < r \<or> (r = half \<and> odd q) then q + 1 else q);
                 e' = (if q' = 2 ^ 24 then e + 1 else e);
                 fr = (if q' = 2 ^ 24 then 0 else q' - 2 ^ 23)
             in if 255 \<le> 127 + e' then Float32 False 255 0
                else Float32 False (127 + e') fr)"

section \<open>Console output and the verification loop\<close>

text \<open>
  A line written to \<^verbatim>\<open>std::cerr\<close> or \<^verbatim>\<open>std::cout\<close>. The mismatch line
  \<^verbatim>\<open>Error. S[i]: x,   D[i]: y\<close> is kept structured: the index and the two values.
\<close>

datatype event =
    Cerr string
  | Cout string
  | CerrMismatch nat float32 float32

definition kErrorLimit :: int where
  "kErrorLimit = 10"

text \<open>
  The loop of lines 237-246, from index \<open>i\<close> with \<open>errors\<close> mismatches counted and
  \<open>out\<close> printed so far. The result is the output, the value of \<open>i\<close> when the loop was
  left, and \<open>Some rc\<close> when the loop returned \<open>rc\<close> from \<^verbatim>\<open>main\<close> itself.
  The counter is an \<^verbatim>\<open>int32_t\<close> that never exceeds the limit, so it is an \<open>int\<close>.
\<close>

function verify_loop ::
  "float32 list \<Rightarrow> float32 list \<Rightarrow> nat \<Rightarrow> int \<Rightarrow> event list \<Rightarrow> event list \<times> nat \<times> int option"
where
  "verify_loop h_S h_D i errors out =
     (if i < length h_D then
        (if float_ne (h_S ! i) (h_D ! i) then
           (let out' = out @ [CerrMismatch i (h_S ! i) (h_D ! i)];
                errors' = errors + 1
            in if errors' \<ge> kErrorLimit
               then (out' @ [Cerr ''Aborting on 10nth error.''], i, Some (- 1))
               else verify_loop h_S h_D (i + 1) errors' out')
         else verify_loop h_S h_D (i + 1) errors out)
      else (out, i, None))"
  by pat_completeness auto
termination
  by (relation "measure (\<lambda>(h_S, h_D, i, errors, out). length h_D - i)") auto

declare verify_loop.simps [simp del]

text \<open>Lines 234-250: the loop, then \<^verbatim>\<open>Success.\<close> and exit code 0 when the loop ran to its end.\<close>

definition verify :: "float32 list \<Rightarrow> float32 list \<Rightarrow> event list \<times> int" where
  "verify h_S h_D =
     (case verify_loop h_S h_D 0 0 [] of
        (out, i, Some rc) \<Rightarrow> (out, rc)
      | (out, i, None) \<Rightarrow> (out @ [Cout ''Success.''], 0))"

text \<open>The indices that the loop's own comparison reports, and the line printed for one.\<close>

definition reported :: "float32 list \<Rightarrow> float32 list \<Rightarrow> nat list" where
  "reported h_S h_D = filter (\<lambda>i. float_ne (h_S ! i) (h_D ! i)) [0..<length h_D]"

definition mismatch_line :: "float32 list \<Rightarrow> float32 list \<Rightarrow> nat \<Rightarrow> event" where
  "mismatch_line h_S h_D i = CerrMismatch i (h_S ! i) (h_D ! i)"

text \<open>
  Two readings of "the buffers differ at an index", stated without the loop's comparison.
  As bit patterns: the two values are not the same fields. As floats compare: one of them
  is a NaN, or they are different fields and not both a zero.
\<close>

definition bit_differing :: "float32 list \<Rightarrow> float32 list \<Rightarrow> nat list" where
  "bit_differing h_S h_D = filter (\<lambda>i. h_S ! i \<noteq> h_D ! i) [0..<length h_D]"

definition differs :: "float32 \<Rightarrow> float32 \<Rightarrow> bool" where
  "differs a b = (is_nan a \<or> is_nan b \<or> (a \<noteq> b \<and> \<not> (is_zero a \<and> is_zero b)))"

definition differing :: "float32 list \<Rightarrow> float32 list \<Rightarrow> nat list" where
  "differing h_S h_D = filter (\<lambda>i. differs (h_S ! i) (h_D ! i)) [0..<length h_D]"

section \<open>Machine integers\<close>

text \<open>
  An extent is a count, so a natural number, held in an \<^verbatim>\<open>int\<close>. The only arithmetic on
  \<^verbatim>\<open>int\<close> that can leave its range is the product \<^verbatim>\<open>size(tensor_shape)\<close>, which sizes
  the buffers (lines 162-173) before either check: an extent or a product above
  \<open>INT_MAX\<close> is a signed overflow, undefined behaviour in the program and a fault here.
  The failure of an allocation is left out.
\<close>

datatype fault = OutOfBounds | Misaligned | SignedOverflow

type_synonym shape2 = "nat \<times> nat"

definition INT_MAX :: nat where
  "INT_MAX = 2147483647"

definition size_of :: "shape2 \<Rightarrow> fault + nat" where
  "size_of s =
     (if fst s \<le> INT_MAX \<and> snd s \<le> INT_MAX \<and> fst s * snd s \<le> INT_MAX
      then Inr (fst s * snd s) else Inl SignedOverflow)"

text \<open>The size of a static layout (\<^verbatim>\<open>Int<32>\<close>, \<^verbatim>\<open>Int<8>\<close>, ...), a constant of the
  compilation.\<close>

definition static_size :: "shape2 \<Rightarrow> nat" where
  "static_size s = fst s * snd s"

definition ceil_div :: "nat \<Rightarrow> nat \<Rightarrow> nat" where
  "ceil_div a b = (a + b - 1) div b"

section \<open>Device memory\<close>

text \<open>
  The two device allocations of \<^verbatim>\<open>main\<close>, named after the pointers that hold them. A
  device state gives each allocation its contents; an element is addressed by the
  allocation and an element offset. An access outside the allocation, or a vector access
  at an offset that is not a multiple of the vector width, is undefined behaviour in the
  program and a fault here. The allocator returns addresses aligned to every vector width
  in use, so the alignment of an access is the alignment of its element offset.
\<close>

datatype dev_ptr = d_S | d_D

type_synonym device = "dev_ptr \<Rightarrow> float32 list"

fun load_all :: "device \<Rightarrow> dev_ptr \<Rightarrow> nat list \<Rightarrow> fault + float32 list" where
  "load_all dev p [] = Inr []"
| "load_all dev p (a # as) =
     (if a < length (dev p)
      then (case load_all dev p as of Inl f \<Rightarrow> Inl f | Inr vs \<Rightarrow> Inr (dev p ! a # vs))
      else Inl OutOfBounds)"

fun store_all :: "device \<Rightarrow> dev_ptr \<Rightarrow> (nat \<times> float32) list \<Rightarrow> fault + device" where
  "store_all dev p [] = Inr dev"
| "store_all dev p ((a, v) # avs) =
     (if a < length (dev p)
      then store_all (dev(p := (dev p)[a := v])) p avs
      else Inl OutOfBounds)"

section \<open>Tensors, tiles and partitions\<close>

text \<open>A rank-2 view of an allocation: offset of element (0, 0), extents and strides.\<close>

record tensor =
  t_ptr :: dev_ptr
  t_off :: nat
  t_shape :: shape2
  t_stride :: shape2

text \<open>
  A tensor tiled as \<open>((M, N), m', n')\<close>: the static tile, and the modes that count the tiles.
\<close>

record tiled_tensor =
  tt_ptr :: dev_ptr
  tt_off :: nat
  tt_tile :: shape2
  tt_tile_stride :: shape2
  tt_rest :: shape2
  tt_rest_stride :: shape2

text \<open>
  A lane's share of a tile under a tiled copy, \<open>(CopyOp, CopyM, CopyN)\<close>: the mode of one
  vector access, and the modes that count the accesses.
\<close>

record copy_tile =
  c_ptr :: dev_ptr
  c_off :: nat
  c_vec :: shape2
  c_vec_stride :: shape2
  c_rest :: shape2
  c_rest_stride :: shape2

text \<open>
  Modelled from the spec: the tensor library (\<^verbatim>\<open>cute/tensor.hpp\<close>) is not part of the
  sources at hand. \<^verbatim>\<open>make_layout\<close> of a shape is the fixed layout rule of the logical
  array (the first mode is contiguous, the second has the first extent as its stride), and
  \<^verbatim>\<open>make_tensor\<close> views an allocation through a layout.
\<close>

definition make_layout :: "shape2 \<Rightarrow> shape2 \<times> shape2" where
  "make_layout s = (s, (1, fst s))"

definition make_tensor :: "dev_ptr \<Rightarrow> shape2 \<times> shape2 \<Rightarrow> tensor" where
  "make_tensor p l = \<lparr>t_ptr = p, t_off = 0, t_shape = fst l, t_stride = snd l\<rparr>"

text \<open>
  Modelled from the spec: \<^verbatim>\<open>tiled_divide\<close>, the tiling operation that partitions a tensor
  into a grid of equally shaped sub-tensors, \<open>(m, n) ==> ((M, N), m', n')\<close> with \<open>m'\<close> and
  \<open>n'\<close> the number of tiles within the tensor; and the slice
  \<^verbatim>\<open>T(make_coord(_,_), x, y)\<close> that views tile \<open>(x, y)\<close>.
\<close>

definition tiled_divide :: "tensor \<Rightarrow> shape2 \<Rightarrow> tiled_tensor" where
  "tiled_divide T b =
     \<lparr>tt_ptr = t_ptr T, tt_off = t_off T,
      tt_tile = b, tt_tile_stride = t_stride T,
      tt_rest = (fst (t_shape T) div fst b, snd (t_shape T) div snd b),
      tt_rest_stride = (fst b * fst (t_stride T), snd b * snd (t_stride T))\<rparr>"

definition slice_tile :: "tiled_tensor \<Rightarrow> nat \<Rightarrow> nat \<Rightarrow> tensor" where
  "slice_tile T x y =
     \<lparr>t_ptr = tt_ptr T,
      t_off = tt_off T + x * fst (tt_rest_stride T) + y * snd (tt_rest_stride T),
      t_shape = tt_tile T, t_stride = tt_tile_stride T\<rparr>"

text \<open>The element offsets of a view, first mode fastest.\<close>

definition tensor_offsets :: "tensor \<Rightarrow> nat list" where
  "tensor_offsets T =
     concat (map (\<lambda>j. map (\<lambda>i. t_off T + i * fst (t_stride T) + j * snd (t_stride T))
                           [0..<fst (t_shape T)])
                 [0..<snd (t_shape T)])"

text \<open>
  Modelled from the spec: \<^verbatim>\<open>local_partition\<close>, the thread-local partition operation. The
  thread arrangement \<open>(THR_M, THR_N)\<close> is replicated over the tile, and lane \<open>tid\<close>, at
  position \<open>(tid mod THR_M, tid div THR_M)\<close> of the arrangement, gets the elements at its
  position in every replica (the striped scheme): a view \<open>(ThrValM, ThrValN)\<close>. The kernel
  has no error path and no predication: the replicas cover the tile, and where the
  arrangement does not divide the tile the last replica reaches beyond it.
\<close>

definition local_partition :: "tensor \<Rightarrow> shape2 \<Rightarrow> nat \<Rightarrow> tensor" where
  "local_partition T thr tid =
     \<lparr>t_ptr = t_ptr T,
      t_off = t_off T + (tid mod fst thr) * fst (t_stride T)
                      + (tid div fst thr) * snd (t_stride T),
      t_shape = (ceil_div (fst (t_shape T)) (fst thr), ceil_div (snd (t_shape T)) (snd thr)),
      t_stride = (fst thr * fst (t_stride T), snd thr * snd (t_stride T))\<rparr>"

text \<open>
  Modelled from the spec: \<^verbatim>\<open>make_tiled_copy\<close> with \<^verbatim>\<open>get_thread_slice\<close> and
  \<^verbatim>\<open>partition_S\<close>/\<^verbatim>\<open>partition_D\<close>. The thread arrangement is composed with the vector
  shape: one pass of the lanes covers \<open>(THR_M * VEC_M, THR_N * VEC_N)\<close> elements, lane
  \<open>tid\<close> moving the vector at its position, and the passes are replicated until they
  cover the tile, without predication.
\<close>

definition partition_copy :: "tensor \<Rightarrow> shape2 \<Rightarrow> shape2 \<Rightarrow> nat \<Rightarrow> copy_tile" where
  "partition_copy T thr vec tid =
     (let cm = fst thr * fst vec; cn = snd thr * snd vec in
      \<lparr>c_ptr = t_ptr T,
       c_off = t_off T + (tid mod fst thr) * fst vec * fst (t_stride T)
                       + (tid div fst thr) * snd vec * snd (t_stride T),
       c_vec = vec, c_vec_stride = t_stride T,
       c_rest = (ceil_div (fst (t_shape T)) cm, ceil_div (snd (t_shape T)) cn),
       c_rest_stride = (cm * fst (t_stride T), cn * snd (t_stride T))\<rparr>)"

text \<open>The offsets of the first element of each vector access of a lane, and of the
  elements of the access that starts at \<open>x\<close>.\<close>

definition vector_bases :: "copy_tile \<Rightarrow> nat list" where
  "vector_bases C =
     concat (map (\<lambda>b. map (\<lambda>a. c_off C + a * fst (c_rest_stride C) + b * snd (c_rest_stride C))
                           [0..<fst (c_rest C)])
                 [0..<snd (c_rest C)])"

definition vector_offsets :: "copy_tile \<Rightarrow> nat \<Rightarrow> nat list" where
  "vector_offsets C x =
     concat (map (\<lambda>w. map (\<lambda>v. x + v * fst (c_vec_stride C) + w * snd (c_vec_stride C))
                           [0..<fst (c_vec C)])
                 [0..<snd (c_vec C)])"

text \<open>
  Modelled from the spec: the generic element-wise \<^verbatim>\<open>copy\<close> on paired views, into and
  out of a register fragment shaped like the lane's view (\<^verbatim>\<open>make_tensor_like\<close>,
  \<^verbatim>\<open>make_fragment_like\<close>): the fragment is the list of the lane's values.
\<close>

definition copy_to_fragment :: "device \<Rightarrow> tensor \<Rightarrow> fault + float32 list" where
  "copy_to_fragment dev T = load_all dev (t_ptr T) (tensor_offsets T)"

definition copy_from_fragment :: "device \<Rightarrow> float32 list \<Rightarrow> tensor \<Rightarrow> fault + device" where
  "copy_from_fragment dev fragment T = store_all dev (t_ptr T) (zip (tensor_offsets T) fragment)"

text \<open>
  Modelled from the spec: \<^verbatim>\<open>copy\<close> through the copy atom. One access moves the elements
  of one vector; the address of the access must be aligned to the vector width.
\<close>

fun atom_load :: "device \<Rightarrow> copy_tile \<Rightarrow> nat list \<Rightarrow> fault + float32 list list" where
  "atom_load dev C [] = Inr []"
| "atom_load dev C (x # xs) =
     (if x mod static_size (c_vec C) \<noteq> 0 then Inl Misaligned
      else case load_all dev (c_ptr C) (vector_offsets C x) of
             Inl f \<Rightarrow> Inl f
           | Inr vs \<Rightarrow> (case atom_load dev C xs of Inl f \<Rightarrow> Inl f | Inr vss \<Rightarrow> Inr (vs # vss)))"

fun atom_store :: "device \<Rightarrow> copy_tile \<Rightarrow> (nat \<times> float32 list) list \<Rightarrow> fault + device" where
  "atom_store dev C [] = Inr dev"
| "atom_store dev C ((x, vs) # xvs) =
     (if x mod static_size (c_vec C) \<noteq> 0 then Inl Misaligned
      else case store_all dev (c_ptr C) (zip (vector_offsets C x) vs) of
             Inl f \<Rightarrow> Inl f
           | Inr dev' \<Rightarrow> atom_store dev' C xvs)"

definition copy_atom_to_fragment :: "device \<Rightarrow> copy_tile \<Rightarrow> fault + float32 list list" where
  "copy_atom_to_fragment dev C = atom_load dev C (vector_bases C)"

definition copy_atom_from_fragment ::
  "device \<Rightarrow> float32 list list \<Rightarrow> copy_tile \<Rightarrow> fault + device" where
  "copy_atom_from_fragment dev fragment C = atom_store dev C (zip (vector_bases C) fragment)"

section \<open>The two kernels\<close>

text \<open>
  A work item is one lane of one work group: the index of the work group in the grid and
  the index of the lane in the group. Each kernel is the effect of one work item on the
  device; it reads \<^verbatim>\<open>work_group_id::x()\<close>, \<^verbatim>\<open>work_group_id::y()\<close> and \<^verbatim>\<open>local_id::x()\<close>.
\<close>

type_synonym dim3 = "nat \<times> nat \<times> nat"

type_synonym work_item = "dim3 \<times> dim3"

definition copy_kernel ::
  "tiled_tensor \<Rightarrow> tiled_tensor \<Rightarrow> shape2 \<Rightarrow> work_item \<Rightarrow> device \<Rightarrow> fault + device" where
  "copy_kernel S D ThreadLayout w dev =
     (case w of ((wg_x, wg_y, wg_z), (lid_x, lid_y, lid_z)) \<Rightarrow>
        let tile_S = slice_tile S wg_x wg_y;
            tile_D = slice_tile D wg_x wg_y;
            thr_tile_S = local_partition tile_S ThreadLayout lid_x;
            thr_tile_D = local_partition tile_D ThreadLayout lid_x
        in case copy_to_fragment dev thr_tile_S of
             Inl f \<Rightarrow> Inl f
           | Inr fragment \<Rightarrow> copy_from_fragment dev fragment thr_tile_D)"

definition copy_kernel_vectorized ::
  "tiled_tensor \<Rightarrow> tiled_tensor \<Rightarrow> shape2 \<Rightarrow> shape2 \<Rightarrow> work_item \<Rightarrow> device \<Rightarrow> fault + device"
where
  "copy_kernel_vectorized S D ThreadLayout VecLayout w dev =
     (case w of ((wg_x, wg_y, wg_z), (lid_x, lid_y, lid_z)) \<Rightarrow>
        let tile_S = slice_tile S wg_x wg_y;
            tile_D = slice_tile D wg_x wg_y;
            thr_tile_S = partition_copy tile_S ThreadLayout VecLayout lid_x;
            thr_tile_D = partition_copy tile_D ThreadLayout VecLayout lid_x
        in case copy_atom_to_fragment dev thr_tile_S of
             Inl f \<Rightarrow> Inl f
           | Inr fragment \<Rightarrow> copy_atom_from_fragment dev fragment thr_tile_D)"

section \<open>Launching a kernel\<close>

text \<open>
  What \<^verbatim>\<open>syclcompat::launch\<close> is given: the kernel named by its template argument, with
  the arguments it is called on.
\<close>

datatype kernel =
    Copy_kernel tiled_tensor tiled_tensor shape2
  | Copy_kernel_vectorized tiled_tensor tiled_tensor shape2 shape2

fun kernel_of :: "kernel \<Rightarrow> work_item \<Rightarrow> device \<Rightarrow> fault + device" where
  "kernel_of (Copy_kernel S D ThreadLayout) = copy_kernel S D ThreadLayout"
| "kernel_of (Copy_kernel_vectorized S D ThreadLayout VecLayout) =
     copy_kernel_vectorized S D ThreadLayout VecLayout"

text \<open>The work items of a launch: every lane of the block in every work group of the grid.\<close>

definition indices :: "dim3 \<Rightarrow> dim3 list" where
  "indices d =
     concat (map (\<lambda>x. concat (map (\<lambda>y. map (\<lambda>z. (x, y, z)) [0..<snd (snd d)])
                                   [0..<fst (snd d)]))
                 [0..<fst d])"

definition work_items :: "dim3 \<Rightarrow> dim3 \<Rightarrow> work_item list" where
  "work_items gridDim blockDim =
     concat (map (\<lambda>g. map (\<lambda>l. (g, l)) (indices blockDim)) (indices gridDim))"

text \<open>
  The device gives no order. A scheduler takes the work items of a launch to the order in
  which they take effect; it is valid for a grid and a block when that order holds their
  work items and no other, as every permutation does.
\<close>

type_synonym scheduler = "work_item list \<Rightarrow> work_item list"

definition valid_schedule :: "dim3 \<Rightarrow> dim3 \<Rightarrow> scheduler \<Rightarrow> bool" where
  "valid_schedule gridDim blockDim sched =
     (set (sched (work_items gridDim blockDim)) = set (work_items gridDim blockDim))"

fun run_work_items ::
  "(work_item \<Rightarrow> device \<Rightarrow> fault + device) \<Rightarrow> work_item list \<Rightarrow> device \<Rightarrow> fault + device"
where
  "run_work_items k [] dev = Inr dev"
| "run_work_items k (w # ws) dev =
     (case k w dev of Inl f \<Rightarrow> Inl f | Inr dev' \<Rightarrow> run_work_items k ws dev')"

text \<open>
  The device as the host sees it: its memory and the launches it has carried out.
  \<^verbatim>\<open>syclcompat::launch\<close> followed by \<^verbatim>\<open>wait_and_throw\<close> runs the kernel on the work items
  of the grid and the block, in the scheduler's order, and records the launch; a fault of
  a work item is the exception that the wait raises.
\<close>

record runtime =
  mem :: device
  launches :: "(kernel \<times> dim3 \<times> dim3) list"

definition launch :: "kernel \<Rightarrow> dim3 \<Rightarrow> dim3 \<Rightarrow> scheduler \<Rightarrow> runtime \<Rightarrow> fault + runtime" where
  "launch k gridDim blockDim sched rt =
     (case run_work_items (kernel_of k) (sched (work_items gridDim blockDim)) (mem rt) of
        Inl f \<Rightarrow> Inl f
      | Inr dev' \<Rightarrow> Inr \<lparr>mem = dev', launches = launches rt @ [(k, gridDim, blockDim)]\<rparr>)"

section \<open>The driver\<close>

text \<open>
  Modelled from the spec: \<^verbatim>\<open>evenly_divides\<close> of the tensor library, which the second
  check of \<^verbatim>\<open>main\<close> calls. The array extents must be an exact multiple of the tile
  extents: in each mode, the extent is the tile extent times the number of tiles that
  cover it.
\<close>

definition evenly_divides :: "shape2 \<Rightarrow> shape2 \<Rightarrow> bool" where
  "evenly_divides a b =
     (fst a = fst b * ceil_div (fst a) (fst b) \<and> snd a = snd b * ceil_div (snd a) (snd b))"

text \<open>The condition of the first check (line 190), on the extents as unsigned values.\<close>

definition not_divisible :: "shape2 \<Rightarrow> shape2 \<Rightarrow> bool" where
  "not_divisible tensor_shape block_shape =
     (fst tensor_shape mod fst block_shape \<noteq> 0 \<or> snd tensor_shape mod snd block_shape \<noteq> 0)"

text \<open>
  What a run of the program leaves behind: its exit code, the console lines in order,
  the launches the device has carried out, the device memory and the host copy of the
  destination.
\<close>

record outcome =
  exit_code :: int
  console :: "event list"
  launched :: "(kernel \<times> dim3 \<times> dim3) list"
  device_mem :: device
  host_D :: "float32 list"

definition thr_layout :: shape2 where
  "thr_layout = (32, 8)"

definition vec_layout :: shape2 where
  "vec_layout = (4, 1)"

text \<open>
  The body of \<^verbatim>\<open>main\<close> (lines 157-250) with the array extents of line 157 and the tile
  extents of line 188 as parameters; the thread arrangement and the vector shape are the
  constants of lines 208 and 211. The buffers are sized and filled first, then the two
  checks, the tiling, the launch and the verification. \<open>Inl\<close> is undefined behaviour on
  the host or the exception that \<^verbatim>\<open>wait_and_throw\<close> raises on a device fault.
\<close>

definition main_body :: "shape2 \<Rightarrow> shape2 \<Rightarrow> scheduler \<Rightarrow> fault + outcome" where
  "main_body tensor_shape block_shape sched =
     (case size_of tensor_shape of
        Inl f \<Rightarrow> Inl f
      | Inr n \<Rightarrow>
         (let h_S = map float_of_nat [0..<n];
              h_D = replicate n (Float32 False 0 0);
              rt = \<lparr>mem = (\<lambda>p. case p of d_S \<Rightarrow> h_S | d_D \<Rightarrow> h_D), launches = []\<rparr>;
              tensor_S = make_tensor d_S (make_layout tensor_shape);
              tensor_D = make_tensor d_D (make_layout tensor_shape)
          in if not_divisible tensor_shape block_shape then
               Inr \<lparr>exit_code = - 1,
                    console = [Cerr ''The tensor shape must be divisible by the block shape.''],
                    launched = launches rt, device_mem = mem rt, host_D = h_D\<rparr>
             else if \<not> evenly_divides tensor_shape block_shape then
               Inr \<lparr>exit_code = - 1,
                    console = [Cerr ''Expected the block_shape to evenly divide the tensor shape.''],
                    launched = launches rt, device_mem = mem rt, host_D = h_D\<rparr>
             else
               let tiled_tensor_S = tiled_divide tensor_S block_shape;
                   tiled_tensor_D = tiled_divide tensor_D block_shape;
                   gridDim = (fst (tt_rest tiled_tensor_D), snd (tt_rest tiled_tensor_D), 1);
                   blockDim = (static_size thr_layout, 1, 1)
               in case launch (Copy_kernel_vectorized tiled_tensor_S tiled_tensor_D
                                 thr_layout vec_layout) gridDim blockDim sched rt of
                    Inl f \<Rightarrow> Inl f
                  | Inr rt' \<Rightarrow>
                      (case verify h_S (mem rt' d_D) of
                         (out, rc) \<Rightarrow>
                           Inr \<lparr>exit_code = rc, console = out,
                                launched = launches rt',
                                device_mem = mem rt', host_D = mem rt' d_D\<rparr>)))"

text \<open>\<^verbatim>\<open>main\<close> as written: neither argument is read.\<close>

definition main :: "int \<Rightarrow> string list \<Rightarrow> scheduler \<Rightarrow> fault + outcome" where
  "main argc argv sched = main_body (256, 512) (128, 64) sched"

section \<open>Footprints\<close>

text \<open>
  The contents of a destination \<open>d\<close> once the elements at the offsets \<open>A\<close> have been
  written, the element at offset \<open>a\<close> with the element of the source \<open>s\<close> at offset
  \<open>f a\<close>.
\<close>

definition copy_at ::
  "(nat \<Rightarrow> nat) \<Rightarrow> nat set \<Rightarrow> float32 list \<Rightarrow> float32 list \<Rightarrow> float32 list" where
  "copy_at f A s d = map (\<lambda>a. if a \<in> A then s ! f a else d ! a) [0..<length d]"

text \<open>
  The offset of the element at a coordinate (row, column) of a tensor, the coordinates of
  a tensor, and for a destination whose elements have distinct offsets, the source offset
  that belongs to a destination offset.
\<close>

definition elem_off :: "tensor \<Rightarrow> nat \<times> nat \<Rightarrow> nat" where
  "elem_off T c = t_off T + fst c * fst (t_stride T) + snd c * snd (t_stride T)"

definition coords_of :: "shape2 \<Rightarrow> (nat \<times> nat) set" where
  "coords_of s = {c. fst c < fst s \<and> snd c < snd s}"

definition source_off :: "tensor \<Rightarrow> tensor \<Rightarrow> nat \<Rightarrow> nat" where
  "source_off T\<^sub>S T\<^sub>D a =
     elem_off T\<^sub>S (the_inv_into (coords_of (t_shape T\<^sub>D)) (elem_off T\<^sub>D) a)"

text \<open>
  The coordinates that a work item accesses under each kernel, in the order of its
  accesses: for the naive kernel the elements of its view; for the vectorized kernel the
  first element of each of its vectors, and the elements of the vector that starts at a
  coordinate.
\<close>

definition grid_coords :: "nat \<Rightarrow> nat \<Rightarrow> (nat \<times> nat) list" where
  "grid_coords r c = concat (map (\<lambda>j. map (\<lambda>i. (i, j)) [0..<r]) [0..<c])"


definition lane_base_coords :: "shape2 \<Rightarrow> shape2 \<Rightarrow> shape2 \<Rightarrow> work_item \<Rightarrow> (nat \<times> nat) list" where
  "lane_base_coords B thr vec w =
     (case w of ((wg_x, wg_y, wg_z), (lid_x, lid_y, lid_z)) \<Rightarrow>
        map (\<lambda>ab. (wg_x * fst B + (lid_x mod fst thr) * fst vec + fst ab * (fst thr * fst vec),
                   wg_y * snd B + (lid_x div fst thr) * snd vec + snd ab * (snd thr * snd vec)))
            (grid_coords (ceil_div (fst B) (fst thr * fst vec))
                         (ceil_div (snd B) (snd thr * snd vec))))"

definition vector_coords :: "shape2 \<Rightarrow> nat \<times> nat \<Rightarrow> (nat \<times> nat) list" where
  "vector_coords vec c = map (\<lambda>vw. (fst c + fst vw, snd c + snd vw)) (grid_coords (fst vec) (snd vec))"

definition lane_vector_coords :: "shape2 \<Rightarrow> shape2 \<Rightarrow> shape2 \<Rightarrow> work_item \<Rightarrow> (nat \<times> nat) set" where
  "lane_vector_coords B thr vec w =
     (\<Union>c\<in>set (lane_base_coords B thr vec w). set (vector_coords vec c))"

text \<open>The alignment precondition of a vectorized launch on a tiled tensor: every vector
  access of every work item starts at a multiple of the vector width.\<close>

definition lane_vector_bases :: "tiled_tensor \<Rightarrow> shape2 \<Rightarrow> shape2 \<Rightarrow> work_item \<Rightarrow> nat list" where
  "lane_vector_bases T thr vec w =
     (case w of ((wg_x, wg_y, wg_z), (lid_x, lid_y, lid_z)) \<Rightarrow>
        vector_bases (partition_copy (slice_tile T wg_x wg_y) thr vec lid_x))"

definition aligned_accesses ::
  "tiled_tensor \<Rightarrow> shape2 \<Rightarrow> shape2 \<Rightarrow> work_item list \<Rightarrow> bool" where
  "aligned_accesses T thr vec ws =
     list_all (\<lambda>w. list_all (\<lambda>x. x mod static_size vec = 0) (lane_vector_bases T thr vec w)) ws"

text \<open>A tensor lies within its allocation when each of its elements does.\<close>

definition within :: "tensor \<Rightarrow> device \<Rightarrow> bool" where
  "within T dev =
     list_all (\<lambda>c. elem_off T c < length (dev (t_ptr T)))
       (grid_coords (fst (t_shape T)) (snd (t_shape T)))"

text \<open>
  In one mode of a tile of extent \<open>B\<close>, under an arrangement of \<open>T\<close> lanes that move
  \<open>V\<close> elements each: the indices that the lane at position \<open>t\<close> touches in tile \<open>x\<close>.
\<close>

definition strip :: "nat \<Rightarrow> nat \<Rightarrow> nat \<Rightarrow> nat \<Rightarrow> nat \<Rightarrow> nat set" where
  "strip B T V x t = {x * B + t * V + a * (T * V) + v | a v. a < B div (T * V) \<and> v < V}"

section \<open>The verification loop\<close>

text \<open>
  The loop prints the mismatches in index order. With \<open>k\<close> mismatches counted it either
  prints the next \<open>10 - k\<close> and returns at the last of them, or prints all that remain
  and runs to the end of the buffer.
\<close>

lemma verify_loop_char:
  assumes "k < 10" "i \<le> length h_D"
  shows "verify_loop h_S h_D i (int k) out =
     (let ms = filter (\<lambda>j. float_ne (h_S ! j) (h_D ! j)) [i..<length h_D] in
      if 10 \<le> k + length ms
      then (out @ map (mismatch_line h_S h_D) (take (10 - k) ms) @ [Cerr ''Aborting on 10nth error.''],
            ms ! (9 - k), Some (- 1))
      else (out @ map (mismatch_line h_S h_D) ms, length h_D, None))"
  using assms
proof (induction "length h_D - i" arbitrary: i k out)
  case 0
  then have "i = length h_D" by simp
  then show ?case using "0.prems" by (simp add: verify_loop.simps)
next
  case (Suc d)
  then have lt: "i < length h_D" by simp
  have upt: "[i..<length h_D] = i # [Suc i..<length h_D]"
    using lt by (simp add: upt_conv_Cons)
  have d: "d = length h_D - Suc i" using Suc.hyps(2) by simp
  show ?case
  proof (cases "float_ne (h_S ! i) (h_D ! i)")
    case False
    have "verify_loop h_S h_D i (int k) out = verify_loop h_S h_D (Suc i) (int k) out"
      using lt False by (subst verify_loop.simps) simp
    also note Suc.hyps(1)[OF d Suc.prems(1), of out]
    finally show ?thesis using lt False upt by simp
  next
    case True
    show ?thesis
    proof (cases "k = 9")
      case k9: True
      have "verify_loop h_S h_D i (int k) out =
            (out @ [mismatch_line h_S h_D i] @ [Cerr ''Aborting on 10nth error.''], i, Some (- 1))"
        using lt True k9
        by (subst verify_loop.simps) (simp add: kErrorLimit_def mismatch_line_def)
      then show ?thesis using True k9 upt by simp
    next
      case k9: False
      then have k': "Suc k < 10" using Suc.prems(1) by simp
      have "verify_loop h_S h_D i (int k) out =
            verify_loop h_S h_D (Suc i) (int (Suc k)) (out @ [mismatch_line h_S h_D i])"
        using lt True k'
        by (subst verify_loop.simps) (simp add: kErrorLimit_def mismatch_line_def Let_def add.commute)
      also note Suc.hyps(1)[OF d k', of "out @ [mismatch_line h_S h_D i]"]
      finally show ?thesis using lt True upt k'
        by (auto simp: Let_def take_Cons' nth_Cons' Suc_diff_le)
    qed
  qed
qed


lemma verify_char:
  "verify h_S h_D =
     (if 10 \<le> length (reported h_S h_D)
      then (map (mismatch_line h_S h_D) (take 10 (reported h_S h_D))
              @ [Cerr ''Aborting on 10nth error.''], - 1)
      else (map (mismatch_line h_S h_D) (reported h_S h_D) @ [Cout ''Success.''], 0))"
  using verify_loop_char [of 0 0 h_D h_S "[]"]
  by (simp add: verify_def reported_def Let_def)


lemma float_ne_differs: "float_ne a b = differs a b"
  by (auto simp: float_ne_def float_eq_def differs_def)

lemma reported_differing: "reported h_S h_D = differing h_S h_D"
  by (simp add: reported_def differing_def float_ne_differs)

section \<open>The divisibility checks\<close>

lemma ceil_div_exact:
  assumes "0 < b"
  shows "(a = b * ceil_div a b) = (a mod b = 0)"
proof
  assume "a = b * ceil_div a b"
  then have "b dvd a" by (metis dvd_triv_left)
  then show "a mod b = 0" by simp
next
  assume "a mod b = 0"
  then obtain q where q: "a = b * q" by (auto simp: mod_eq_0_iff_dvd)
  have "(b * q + b - 1) div b = (b - 1 + q * b) div b"
    using assms by (simp add: algebra_simps)
  also have "\<dots> = q" using assms by (simp only: div_mult_self1) simp
  finally show "a = b * ceil_div a b" using q by (simp add: ceil_div_def)
qed

lemma checks_agree:
  assumes "0 < fst b" "0 < snd b"
  shows "not_divisible a b = (\<not> evenly_divides a b)"
  using assms by (auto simp: not_divisible_def evenly_divides_def ceil_div_exact)


lemma verify_console:
  "Cerr ''Expected the block_shape to evenly divide the tensor shape.'' \<notin> set (fst (verify h_S h_D))"
  by (auto simp: verify_char mismatch_line_def)

section \<open>Loads and stores\<close>

lemma length_copy_at [simp]: "length (copy_at f A s d) = length d"
  by (simp add: copy_at_def)

lemma nth_copy_at:
  "a < length d \<Longrightarrow> copy_at f A s d ! a = (if a \<in> A then s ! f a else d ! a)"
  by (simp add: copy_at_def)

lemma copy_at_empty [simp]: "copy_at f {} s d = d"
  by (rule nth_equalityI) (simp_all add: nth_copy_at)

lemma copy_at_update:
  "a < length d \<Longrightarrow> copy_at f B s (d[a := s ! f a]) = copy_at f (insert a B) s d"
  by (rule nth_equalityI) (auto simp: nth_copy_at nth_list_update)

lemma copy_at_copy_at: "copy_at f B s (copy_at f A s d) = copy_at f (A \<union> B) s d"
  by (rule nth_equalityI) (auto simp: nth_copy_at)

lemma copy_at_full:
  assumes "length s = length d" "{..<length d} \<subseteq> A" "\<And>a. a < length d \<Longrightarrow> f a = a"
  shows "copy_at f A s d = s"
  using assms by (intro nth_equalityI) (auto simp: nth_copy_at)

lemma load_all_ok:
  "\<forall>a\<in>set offs. a < length (dev p) \<Longrightarrow> load_all dev p offs = Inr (map (\<lambda>a. dev p ! a) offs)"
  by (induction offs) auto

lemma load_all_fault:
  "\<exists>a\<in>set offs. \<not> a < length (dev p) \<Longrightarrow> load_all dev p offs = Inl OutOfBounds"
proof (induction offs)
  case Nil
  then show ?case by simp
next
  case (Cons a offs)
  show ?case
  proof (cases "a < length (dev p)")
    case True
    then have "\<exists>b\<in>set offs. \<not> b < length (dev p)" using Cons.prems by auto
    then show ?thesis using True Cons.IH by simp
  next
    case False
    then show ?thesis by simp
  qed
qed

lemma store_all_copy:
  "\<forall>a\<in>set offs. a < length (dev p) \<Longrightarrow>
   store_all dev p (zip offs (map (\<lambda>a. s ! f a) offs)) =
   Inr (dev(p := copy_at f (set offs) s (dev p)))"
proof (induction offs arbitrary: dev)
  case Nil
  then show ?case by simp
next
  case (Cons a offs)
  define dev1 where "dev1 = dev(p := (dev p)[a := s ! f a])"
  have b: "\<forall>b\<in>set offs. b < length (dev1 p)" using Cons.prems by (simp add: dev1_def)
  have "store_all dev p (zip (a # offs) (map (\<lambda>a. s ! f a) (a # offs))) =
        store_all dev1 p (zip offs (map (\<lambda>a. s ! f a) offs))"
    using Cons.prems by (simp add: dev1_def)
  also have "\<dots> = Inr (dev1(p := copy_at f (set offs) s (dev1 p)))"
    using b by (rule Cons.IH)
  also have "dev1(p := copy_at f (set offs) s (dev1 p)) =
             dev(p := copy_at f (set (a # offs)) s (dev p))"
    using Cons.prems by (simp add: dev1_def copy_at_update)
  finally show ?case .
qed

text \<open>The same in coordinates: the values of the source at the coordinates, stored at the
  offsets that a destination with distinct offsets gives the coordinates.\<close>

lemma store_all_coords:
  assumes inj: "inj_on aD U" and sub: "set cs \<subseteq> U"
    and bd: "\<forall>c\<in>set cs. aD c < length (dev p)"
  shows "store_all dev p (zip (map aD cs) (map (\<lambda>c. s ! aS c) cs)) =
         Inr (dev(p := copy_at (\<lambda>a. aS (the_inv_into U aD a)) (aD ` set cs) s (dev p)))"
proof -
  define f where "f = (\<lambda>a. aS (the_inv_into U aD a))"
  have "map (\<lambda>c. s ! aS c) cs = map (\<lambda>a. s ! f a) (map aD cs)"
    using sub by (auto simp: f_def the_inv_into_f_f [OF inj])
  moreover have "\<forall>a\<in>set (map aD cs). a < length (dev p)" using bd by simp
  then have "store_all dev p (zip (map aD cs) (map (\<lambda>a. s ! f a) (map aD cs))) =
             Inr (dev(p := copy_at f (set (map aD cs)) s (dev p)))"
    by (rule store_all_copy)
  ultimately show ?thesis unfolding f_def by (simp only: set_map)
qed

lemma store_all_frame:
  "store_all dev p avs = Inr dev' \<Longrightarrow> q \<noteq> p \<Longrightarrow> dev' q = dev q"
proof (induction avs arbitrary: dev)
  case Nil
  then show ?case by simp
next
  case (Cons av avs)
  obtain a v where av: "av = (a, v)" by (cases av)
  define dev1 where "dev1 = dev(p := (dev p)[a := v])"
  have "store_all dev1 p avs = Inr dev'"
    using Cons.prems(1) by (simp add: av dev1_def split: if_splits)
  then have "dev' q = dev1 q" using Cons.prems(2) by (rule Cons.IH)
  then show ?case using Cons.prems(2) by (simp add: dev1_def)
qed

section \<open>Vector accesses\<close>

lemma atom_load_ok:
  assumes "\<forall>x\<in>set xs. x mod static_size (c_vec C) = 0"
    and "\<forall>x\<in>set xs. \<forall>a\<in>set (vector_offsets C x). a < length (dev (c_ptr C))"
  shows "atom_load dev C xs =
         Inr (map (\<lambda>x. map (\<lambda>a. dev (c_ptr C) ! a) (vector_offsets C x)) xs)"
  using assms by (induction xs) (simp_all add: load_all_ok)

lemma atom_store_coords:
  assumes inj: "inj_on aD U"
    and vo: "\<forall>c\<in>set bcs. vector_offsets C (aD c) = map aD (vcs c)"
    and al: "\<forall>c\<in>set bcs. aD c mod static_size (c_vec C) = 0"
    and sub: "\<forall>c\<in>set bcs. set (vcs c) \<subseteq> U"
    and bd: "\<forall>c\<in>set bcs. \<forall>e\<in>set (vcs c). aD e < length (dev (c_ptr C))"
  shows "atom_store dev C (zip (map aD bcs) (map (\<lambda>c. map (\<lambda>e. s ! aS e) (vcs c)) bcs)) =
         Inr (dev(c_ptr C := copy_at (\<lambda>a. aS (the_inv_into U aD a))
                               (aD ` (\<Union>c\<in>set bcs. set (vcs c))) s (dev (c_ptr C))))"
  using vo al sub bd
proof (induction bcs arbitrary: dev)
  case Nil
  then show ?case by simp
next
  case (Cons c bcs)
  define p where "p = c_ptr C"
  define f where "f = (\<lambda>a. aS (the_inv_into U aD a))"
  define dev1 where "dev1 = dev(p := copy_at f (aD ` set (vcs c)) s (dev p))"
  have st: "store_all dev p (zip (vector_offsets C (aD c)) (map (\<lambda>e. s ! aS e) (vcs c))) = Inr dev1"
  proof -
    have "vector_offsets C (aD c) = map aD (vcs c)" using Cons.prems(1) by simp
    moreover have "store_all dev p (zip (map aD (vcs c)) (map (\<lambda>e. s ! aS e) (vcs c))) = Inr dev1"
      unfolding dev1_def f_def
      using Cons.prems(3,4) by (intro store_all_coords [OF inj]) (simp_all add: p_def)
    ultimately show ?thesis by simp
  qed
  have bd1: "\<forall>c\<in>set bcs. \<forall>e\<in>set (vcs c). aD e < length (dev1 (c_ptr C))"
    using Cons.prems(4) by (simp add: dev1_def p_def)
  have "atom_store dev C (zip (map aD (c # bcs)) (map (\<lambda>c. map (\<lambda>e. s ! aS e) (vcs c)) (c # bcs))) =
        atom_store dev1 C (zip (map aD bcs) (map (\<lambda>c. map (\<lambda>e. s ! aS e) (vcs c)) bcs))"
    using Cons.prems(2) st by (simp add: p_def)
  also have "\<dots> = Inr (dev1(c_ptr C := copy_at f (aD ` (\<Union>c\<in>set bcs. set (vcs c))) s
                                          (dev1 (c_ptr C))))"
    unfolding f_def using Cons.prems(1,2,3) bd1 by (intro Cons.IH) simp_all
  also have "dev1(c_ptr C := copy_at f (aD ` (\<Union>c\<in>set bcs. set (vcs c))) s (dev1 (c_ptr C))) =
             dev(c_ptr C := copy_at f (aD ` (\<Union>c\<in>set (c # bcs). set (vcs c))) s (dev (c_ptr C)))"
    by (simp add: dev1_def p_def copy_at_copy_at image_Un)
  finally show ?case unfolding f_def .
qed

lemma atom_store_frame:
  "atom_store dev C xvs = Inr dev' \<Longrightarrow> q \<noteq> c_ptr C \<Longrightarrow> dev' q = dev q"
proof (induction xvs arbitrary: dev)
  case Nil
  then show ?case by simp
next
  case (Cons xv xvs)
  obtain x vs where xv: "xv = (x, vs)" by (cases xv)
  from Cons.prems(1) obtain dev1 where
    st: "store_all dev (c_ptr C) (zip (vector_offsets C x) vs) = Inr dev1" and
    rest: "atom_store dev1 C xvs = Inr dev'"
    by (auto simp: xv split: if_splits sum.splits)
  have "dev' q = dev1 q" using rest Cons.prems(2) by (rule Cons.IH)
  also have "dev1 q = dev q" using st Cons.prems(2) by (rule store_all_frame)
  finally show ?case .
qed

section \<open>The frame of a work item and of a launch\<close>

lemma copy_kernel_frame:
  assumes "copy_kernel S D thr w dev = Inr dev'" and "q \<noteq> tt_ptr D"
  shows "dev' q = dev q"
proof -
  obtain gx gy gz lx ly lz where w: "w = ((gx, gy, gz), (lx, ly, lz))"
    by (metis prod.exhaust)
  define P where "P = local_partition (slice_tile D gx gy) thr lx"
  from assms(1) obtain fragment where
    st: "store_all dev (t_ptr P) (zip (tensor_offsets P) fragment) = Inr dev'"
    by (auto simp: copy_kernel_def w copy_from_fragment_def P_def Let_def split: sum.splits)
  have "t_ptr P = tt_ptr D" by (simp add: P_def local_partition_def slice_tile_def)
  then show ?thesis using st assms(2) store_all_frame by metis
qed

lemma copy_kernel_vectorized_frame:
  assumes "copy_kernel_vectorized S D thr vec w dev = Inr dev'" and "q \<noteq> tt_ptr D"
  shows "dev' q = dev q"
proof -
  obtain gx gy gz lx ly lz where w: "w = ((gx, gy, gz), (lx, ly, lz))"
    by (metis prod.exhaust)
  define C where "C = partition_copy (slice_tile D gx gy) thr vec lx"
  from assms(1) obtain fragment where
    st: "atom_store dev C (zip (vector_bases C) fragment) = Inr dev'"
    by (auto simp: copy_kernel_vectorized_def w copy_atom_from_fragment_def C_def Let_def
        split: sum.splits)
  have "c_ptr C = tt_ptr D" by (simp add: C_def partition_copy_def slice_tile_def Let_def)
  then show ?thesis using st assms(2) atom_store_frame by metis
qed

lemma run_work_items_frame:
  assumes "\<And>w dev dev'. k w dev = Inr dev' \<Longrightarrow> dev' q = dev q"
    and "run_work_items k ws dev = Inr dev'"
  shows "dev' q = dev q"
  using assms(2)
proof (induction ws arbitrary: dev)
  case Nil
  then show ?case by simp
next
  case (Cons w ws)
  from Cons.prems obtain dev1 where 1: "k w dev = Inr dev1"
    and 2: "run_work_items k ws dev1 = Inr dev'"
    by (auto split: sum.splits)
  show ?case using Cons.IH [OF 2] assms(1) [OF 1] by simp
qed

text \<open>A launch whose work items all have the effect of copying their footprint copies the union
  of the footprints.\<close>

lemma run_work_items_effect:
  assumes ne: "pD \<noteq> pS"
    and eff: "\<And>w dev. w \<in> set ws \<Longrightarrow> length (dev pS) = lS \<Longrightarrow> length (dev pD) = lD \<Longrightarrow>
                 k w dev = Inr (dev(pD := copy_at f (F w) (dev pS) (dev pD)))"
    and len: "length (dev pS) = lS" "length (dev pD) = lD"
  shows "run_work_items k ws dev = Inr (dev(pD := copy_at f (\<Union>w\<in>set ws. F w) (dev pS) (dev pD)))"
  using eff len
proof (induction ws arbitrary: dev)
  case Nil
  then show ?case by simp
next
  case (Cons w ws)
  define dev1 where "dev1 = dev(pD := copy_at f (F w) (dev pS) (dev pD))"
  have 1: "k w dev = Inr dev1" unfolding dev1_def
    by (rule Cons.prems(1)) (simp_all add: Cons.prems(2,3))
  have l1: "length (dev1 pS) = lS" "length (dev1 pD) = lD"
    using Cons.prems(2,3) ne by (simp_all add: dev1_def)
  have "run_work_items k ws dev1 =
        Inr (dev1(pD := copy_at f (\<Union>w\<in>set ws. F w) (dev1 pS) (dev1 pD)))"
  proof (rule Cons.IH)
    fix w' and dev' :: device
    assume "w' \<in> set ws" "length (dev' pS) = lS" "length (dev' pD) = lD"
    then show "k w' dev' = Inr (dev'(pD := copy_at f (F w') (dev' pS) (dev' pD)))"
      by (intro Cons.prems(1)) simp_all
  qed (rule l1)+
  also have "dev1(pD := copy_at f (\<Union>w\<in>set ws. F w) (dev1 pS) (dev1 pD)) =
             dev(pD := copy_at f (\<Union>w\<in>set (w # ws). F w) (dev pS) (dev pD))"
    using ne by (simp add: dev1_def copy_at_copy_at)
  finally show ?case using 1 by simp
qed

section \<open>The accesses of a work item, in coordinates\<close>

lemma map_grid_coords:
  "map h (grid_coords r c) = concat (map (\<lambda>j. map (\<lambda>i. h (i, j)) [0..<r]) [0..<c])"
  by (simp add: grid_coords_def map_concat o_def)

lemma in_grid_coords: "ab \<in> set (grid_coords r c) \<longleftrightarrow> fst ab < r \<and> snd ab < c"
  by (cases ab) (auto simp: grid_coords_def image_iff)

lemma concat_grid_coords:
  assumes "\<And>i j. f i j = h (i, j)"
  shows "concat (map (\<lambda>j. map (\<lambda>i. f i j) [0..<r]) [0..<c]) = map h (grid_coords r c)"
  by (simp add: map_grid_coords assms)

lemma work_item_cases:
  obtains gx gy gz lx ly lz where "w = ((gx, gy, gz), (lx, ly, lz))"
  by (metis prod.exhaust)


lemma vector_bases_coords:
  "vector_bases (partition_copy (slice_tile (tiled_divide T B) gx gy) thr vec lx) =
   map (elem_off T) (lane_base_coords B thr vec ((gx, gy, gz), (lx, ly, lz)))"
proof -
  define C where "C = partition_copy (slice_tile (tiled_divide T B) gx gy) thr vec lx"
  define g where "g = (\<lambda>ab. (gx * fst B + (lx mod fst thr) * fst vec + fst ab * (fst thr * fst vec),
                            gy * snd B + (lx div fst thr) * snd vec + snd ab * (snd thr * snd vec)))"
  have sh: "c_rest C = (ceil_div (fst B) (fst thr * fst vec), ceil_div (snd B) (snd thr * snd vec))"
    by (simp add: C_def partition_copy_def slice_tile_def tiled_divide_def Let_def)
  have "vector_bases C =
        map (\<lambda>ab. elem_off T (g ab)) (grid_coords (fst (c_rest C)) (snd (c_rest C)))"
    unfolding vector_bases_def
    by (rule concat_grid_coords)
      (simp add: C_def g_def partition_copy_def slice_tile_def tiled_divide_def elem_off_def
        Let_def algebra_simps)
  then show ?thesis
    by (simp add: C_def [symmetric] sh lane_base_coords_def g_def o_def)
qed

lemma vector_offsets_coords:
  "vector_offsets (partition_copy (slice_tile (tiled_divide T B) gx gy) thr vec lx) (elem_off T c) =
   map (elem_off T) (vector_coords vec c)"
proof -
  define C where "C = partition_copy (slice_tile (tiled_divide T B) gx gy) thr vec lx"
  have sh: "c_vec C = vec"
    by (simp add: C_def partition_copy_def Let_def)
  have "vector_offsets C (elem_off T c) =
        map (\<lambda>vw. elem_off T (fst c + fst vw, snd c + snd vw))
            (grid_coords (fst (c_vec C)) (snd (c_vec C)))"
    unfolding vector_offsets_def
    by (rule concat_grid_coords)
      (simp add: C_def partition_copy_def slice_tile_def tiled_divide_def elem_off_def
        Let_def algebra_simps)
  then show ?thesis
    by (simp add: C_def [symmetric] sh vector_coords_def o_def)
qed

lemma lane_vector_bases_coords:
  "lane_vector_bases (tiled_divide T B) thr vec w = map (elem_off T) (lane_base_coords B thr vec w)"
  by (rule work_item_cases [of w]) (simp add: lane_vector_bases_def vector_bases_coords)

section \<open>The effect of a work item\<close>


lemma copy_kernel_vectorized_effect:
  assumes S: "S = tiled_divide TS B" and D: "D = tiled_divide TD B"
    and ne: "t_ptr TD \<noteq> t_ptr TS"
    and inj: "inj_on (elem_off TD) U"
    and sub: "lane_vector_coords B thr vec w \<subseteq> U"
    and alS: "\<forall>x\<in>set (lane_vector_bases S thr vec w). x mod static_size vec = 0"
    and alD: "\<forall>x\<in>set (lane_vector_bases D thr vec w). x mod static_size vec = 0"
    and bS: "\<forall>c\<in>lane_vector_coords B thr vec w. elem_off TS c < length (dev (t_ptr TS))"
    and bD: "\<forall>c\<in>lane_vector_coords B thr vec w. elem_off TD c < length (dev (t_ptr TD))"
  shows "copy_kernel_vectorized S D thr vec w dev =
         Inr (dev(t_ptr TD := copy_at (\<lambda>a. elem_off TS (the_inv_into U (elem_off TD) a))
                                (elem_off TD ` lane_vector_coords B thr vec w)
                                (dev (t_ptr TS)) (dev (t_ptr TD))))"
proof (rule work_item_cases [of w])
  fix gx gy gz lx ly lz
  assume w: "w = ((gx, gy, gz), (lx, ly, lz))"
  define CS where "CS = partition_copy (slice_tile S gx gy) thr vec lx"
  define CD where "CD = partition_copy (slice_tile D gx gy) thr vec lx"
  define bcs where "bcs = lane_base_coords B thr vec w"
  have lvc: "lane_vector_coords B thr vec w = (\<Union>c\<in>set bcs. set (vector_coords vec c))"
    by (simp add: lane_vector_coords_def bcs_def)
  have bS': "vector_bases CS = map (elem_off TS) bcs"
    unfolding CS_def S bcs_def w by (rule vector_bases_coords)
  have bD': "vector_bases CD = map (elem_off TD) bcs"
    unfolding CD_def D bcs_def w by (rule vector_bases_coords)
  have oS: "vector_offsets CS (elem_off TS c) = map (elem_off TS) (vector_coords vec c)" for c
    unfolding CS_def S by (rule vector_offsets_coords)
  have oD: "vector_offsets CD (elem_off TD c) = map (elem_off TD) (vector_coords vec c)" for c
    unfolding CD_def D by (rule vector_offsets_coords)
  have pS: "c_ptr CS = t_ptr TS" and vS: "c_vec CS = vec"
    by (simp_all add: CS_def S partition_copy_def slice_tile_def tiled_divide_def Let_def)
  have pD: "c_ptr CD = t_ptr TD" and vD: "c_vec CD = vec"
    by (simp_all add: CD_def D partition_copy_def slice_tile_def tiled_divide_def Let_def)
  have aS: "\<forall>c\<in>set bcs. elem_off TS c mod static_size vec = 0"
    using alS by (simp add: S lane_vector_bases_coords bcs_def)
  have aD: "\<forall>c\<in>set bcs. elem_off TD c mod static_size vec = 0"
    using alD by (simp add: D lane_vector_bases_coords bcs_def)
  define frag where
    "frag = map (\<lambda>c. map (\<lambda>e. dev (t_ptr TS) ! elem_off TS e) (vector_coords vec c)) bcs"
  have "atom_load dev CS (map (elem_off TS) bcs) =
        Inr (map (\<lambda>x. map (\<lambda>a. dev (c_ptr CS) ! a) (vector_offsets CS x)) (map (elem_off TS) bcs))"
    using aS bS by (intro atom_load_ok) (auto simp: vS pS oS lvc)
  then have ld: "copy_atom_to_fragment dev CS = Inr frag"
    by (simp add: copy_atom_to_fragment_def bS' pS oS o_def frag_def)
  have "atom_store dev CD
          (zip (map (elem_off TD) bcs)
               (map (\<lambda>c. map (\<lambda>e. dev (t_ptr TS) ! elem_off TS e) (vector_coords vec c)) bcs)) =
        Inr (dev(c_ptr CD := copy_at (\<lambda>a. elem_off TS (the_inv_into U (elem_off TD) a))
                   (elem_off TD ` (\<Union>c\<in>set bcs. set (vector_coords vec c)))
                   (dev (t_ptr TS)) (dev (c_ptr CD))))"
    using aD bD sub by (intro atom_store_coords [OF inj]) (auto simp: vD pD oD lvc)
  then have st: "copy_atom_from_fragment dev frag CD =
        Inr (dev(t_ptr TD := copy_at (\<lambda>a. elem_off TS (the_inv_into U (elem_off TD) a))
                   (elem_off TD ` (\<Union>c\<in>set bcs. set (vector_coords vec c)))
                   (dev (t_ptr TS)) (dev (t_ptr TD))))"
    by (simp only: copy_atom_from_fragment_def bD' pD frag_def)
  have "copy_kernel_vectorized S D thr vec w dev =
        Inr (dev(t_ptr TD := copy_at (\<lambda>a. elem_off TS (the_inv_into U (elem_off TD) a))
                   (elem_off TD ` (\<Union>c\<in>set bcs. set (vector_coords vec c)))
                   (dev (t_ptr TS)) (dev (t_ptr TD))))"
    unfolding copy_kernel_vectorized_def w prod.case Let_def CS_def [symmetric] CD_def [symmetric]
    by (simp only: ld sum.case st)
  then show ?thesis by (simp only: lvc)
qed

section \<open>Coverage in one mode\<close>

lemma ceil_div_dvd:
  assumes "b \<noteq> 0" "a mod b = 0"
  shows "ceil_div a b = a div b"
proof -
  from assms(2) have "b dvd a" by (simp add: mod_eq_0_iff_dvd)
  then obtain q where q: "a = b * q" ..
  have "(b * q + b - 1) div b = (b - 1 + q * b) div b"
    using assms(1) by (simp add: algebra_simps)
  also have "\<dots> = q"
  proof -
    have "0 < b" using assms(1) by simp
    then show ?thesis by (simp only: div_mult_self1) simp
  qed
  finally show ?thesis using q assms(1) by (simp add: ceil_div_def)
qed

lemma in_strip:
  "i \<in> strip B T V x t \<longleftrightarrow> (\<exists>a v. a < B div (T * V) \<and> v < V \<and> i = x * B + t * V + a * (T * V) + v)"
  by (auto simp: strip_def)


text \<open>One mode: the lanes of the tiles cover the whole tiles, and nothing else.\<close>

lemma strip_bound:
  assumes "T * V \<noteq> 0" "B mod (T * V) = 0" "x < g" "t < T" "i \<in> strip B T V x t"
  shows "i < g * B"
proof -
  from assms(5) obtain a v where av: "a < B div (T * V)" "v < V"
    and i: "i = x * B + t * V + a * (T * V) + v"
    unfolding in_strip by blast
  have B: "B = (B div (T * V)) * (T * V)" using assms(2) by (simp add: mod_eq_0_iff_dvd)
  have "t * V + v < T * V"
  proof -
    have "t * V + v < t * V + V" using av(2) by simp
    also have "\<dots> = Suc t * V" by simp
    also have "\<dots> \<le> T * V" using assms(4) by (intro mult_le_mono1) simp
    finally show ?thesis .
  qed
  then have "a * (T * V) + (t * V + v) < a * (T * V) + T * V" by simp
  also have "\<dots> = Suc a * (T * V)" by simp
  also have "\<dots> \<le> (B div (T * V)) * (T * V)" using av(1) by (intro mult_le_mono1) simp
  also have "\<dots> = B" using B by simp
  finally have "t * V + a * (T * V) + v < B" by (simp add: add_ac)
  then have "x * B + (t * V + a * (T * V) + v) < x * B + B" by simp
  also have "\<dots> = Suc x * B" by simp
  also have "\<dots> \<le> g * B" using assms(3) by (intro mult_le_mono1) simp
  finally show ?thesis using i by (simp add: add_ac)
qed

lemma strip_cover:
  assumes "T * V \<noteq> 0" "B mod (T * V) = 0" "i < g * B"
  shows "\<exists>x t. x < g \<and> t < T \<and> i \<in> strip B T V x t"
proof -
  have Bpos: "0 < B" using assms(3) by (cases B) simp_all
  have TV: "0 < T" "0 < V" using assms(1) by simp_all
  have B: "B = (B div (T * V)) * (T * V)" using assms(2) by (simp add: mod_eq_0_iff_dvd)
  define x where "x = i div B"
  define r where "r = i mod B"
  define a where "a = r div (T * V)"
  define q where "q = r mod (T * V)"
  define t where "t = q div V"
  define v where "v = q mod V"
  have x: "x < g" unfolding x_def using assms(3) Bpos
    by (simp add: less_mult_imp_div_less)
  have r: "r < B" unfolding r_def using Bpos by simp
  have "r < (B div (T * V)) * (T * V)" using r B by simp
  then have a: "a < B div (T * V)" unfolding a_def
    by (simp add: less_mult_imp_div_less)
  have q: "q < T * V" unfolding q_def using assms(1) by simp
  then have t: "t < T" unfolding t_def by (simp add: less_mult_imp_div_less)
  have v: "v < V" unfolding v_def using TV by simp
  have "q = t * V + v" unfolding t_def v_def by (simp only: div_mult_mod_eq)
  moreover have "r = a * (T * V) + q" unfolding a_def q_def by (simp only: div_mult_mod_eq)
  moreover have "i = x * B + r" unfolding x_def r_def by (simp only: div_mult_mod_eq)
  ultimately have "i = x * B + t * V + a * (T * V) + v" by simp
  then have "i \<in> strip B T V x t" unfolding in_strip using a v by blast
  then show ?thesis using x t by blast
qed


section \<open>Coverage in two modes\<close>

lemma set_indices: "set (indices (a, b, c)) = {(x, y, z). x < a \<and> y < b \<and> z < c}"
  by (auto simp: indices_def image_iff)

lemma set_work_items: "set (work_items g b) = set (indices g) \<times> set (indices b)"
  by (auto simp: work_items_def)

lemma in_work_items:
  "((gx, gy, gz), (lx, ly, lz)) \<in> set (work_items (gm, gn, 1) (T, 1, 1)) \<longleftrightarrow>
   gx < gm \<and> gy < gn \<and> gz = 0 \<and> lx < T \<and> ly = 0 \<and> lz = 0"
  by (auto simp: set_work_items set_indices)


lemma in_lane_base_coords:
  "c \<in> set (lane_base_coords (BM, BN) (TM, TN) (VM, VN) ((gx, gy, gz), (lx, ly, lz))) \<longleftrightarrow>
   (\<exists>a b. a < ceil_div BM (TM * VM) \<and> b < ceil_div BN (TN * VN) \<and>
          c = (gx * BM + lx mod TM * VM + a * (TM * VM), gy * BN + lx div TM * VN + b * (TN * VN)))"
  by (simp add: lane_base_coords_def image_iff Bex_def in_grid_coords)

lemma in_vector_coords:
  "c \<in> set (vector_coords (VM, VN) c0) \<longleftrightarrow>
   (\<exists>v w. v < VM \<and> w < VN \<and> c = (fst c0 + v, snd c0 + w))"
  by (simp add: vector_coords_def image_iff Bex_def in_grid_coords)

lemma in_lane_vector_coords_raw:
  "c \<in> lane_vector_coords (BM, BN) (TM, TN) (VM, VN) ((gx, gy, gz), (lx, ly, lz)) \<longleftrightarrow>
   (\<exists>a b v w. a < ceil_div BM (TM * VM) \<and> b < ceil_div BN (TN * VN) \<and> v < VM \<and> w < VN \<and>
      c = (gx * BM + lx mod TM * VM + a * (TM * VM) + v,
           gy * BN + lx div TM * VN + b * (TN * VN) + w))"
  unfolding lane_vector_coords_def UN_iff Bex_def in_lane_base_coords in_vector_coords
  by auto


lemma in_lane_vector_coords:
  assumes "TM * VM \<noteq> 0" "TN * VN \<noteq> 0" "BM mod (TM * VM) = 0" "BN mod (TN * VN) = 0"
  shows "c \<in> lane_vector_coords (BM, BN) (TM, TN) (VM, VN) ((gx, gy, gz), (lx, ly, lz)) \<longleftrightarrow>
         fst c \<in> strip BM TM VM gx (lx mod TM) \<and> snd c \<in> strip BN TN VN gy (lx div TM)"
proof -
  have "c \<in> lane_vector_coords (BM, BN) (TM, TN) (VM, VN) ((gx, gy, gz), (lx, ly, lz)) \<longleftrightarrow>
        (\<exists>a b v w. a < BM div (TM * VM) \<and> b < BN div (TN * VN) \<and> v < VM \<and> w < VN \<and>
              fst c = gx * BM + lx mod TM * VM + a * (TM * VM) + v \<and>
              snd c = gy * BN + lx div TM * VN + b * (TN * VN) + w)"
    unfolding in_lane_vector_coords_raw ceil_div_dvd [OF assms(1,3)] ceil_div_dvd [OF assms(2,4)]
    by (cases c) simp
  also have "\<dots> \<longleftrightarrow> fst c \<in> strip BM TM VM gx (lx mod TM) \<and> snd c \<in> strip BN TN VN gy (lx div TM)"
    unfolding in_strip by blast
  finally show ?thesis .
qed

lemma in_coords_of: "c \<in> coords_of s \<longleftrightarrow> fst c < fst s \<and> snd c < snd s"
  by (simp add: coords_of_def)

text \<open>Two modes: the work items of a grid cover the whole tiles of the grid.\<close>

lemma strips_cover:
  assumes F: "\<And>gx gy gz lx ly lz c. c \<in> F ((gx, gy, gz), (lx, ly, lz)) \<longleftrightarrow>
                fst c \<in> strip BM TM VM gx (lx mod TM) \<and> snd c \<in> strip BN TN VN gy (lx div TM)"
    and shp: "TM * VM \<noteq> 0" "TN * VN \<noteq> 0" "BM mod (TM * VM) = 0" "BN mod (TN * VN) = 0"
  shows "(\<Union>w\<in>set (work_items (gm, gn, 1) (TM * TN, 1, 1)). F w) = coords_of (gm * BM, gn * BN)"
proof (intro set_eqI iffI)
  fix c
  assume "c \<in> (\<Union>w\<in>set (work_items (gm, gn, 1) (TM * TN, 1, 1)). F w)"
  then obtain w where w: "w \<in> set (work_items (gm, gn, 1) (TM * TN, 1, 1))" and c: "c \<in> F w"
    by blast
  obtain gx gy gz lx ly lz where weq: "w = ((gx, gy, gz), (lx, ly, lz))"
    by (rule work_item_cases)
  have b: "gx < gm" "gy < gn" "lx < TM * TN" using w unfolding weq in_work_items by simp_all
  have i: "fst c \<in> strip BM TM VM gx (lx mod TM)" and j: "snd c \<in> strip BN TN VN gy (lx div TM)"
    using c unfolding weq F by simp_all
  have TM: "0 < TM" using shp(1) by simp
  have "lx mod TM < TM" using TM by simp
  then have "fst c < gm * BM" using strip_bound [OF shp(1,3) b(1) _ i] by simp
  moreover have "lx div TM < TN" using b(3) by (simp add: less_mult_imp_div_less mult.commute)
  then have "snd c < gn * BN" using strip_bound [OF shp(2,4) b(2) _ j] by simp
  ultimately show "c \<in> coords_of (gm * BM, gn * BN)" by (simp add: in_coords_of)
next
  fix c
  assume "c \<in> coords_of (gm * BM, gn * BN)"
  then have i: "fst c < gm * BM" and j: "snd c < gn * BN" by (simp_all add: in_coords_of)
  from strip_cover [OF shp(1,3) i] obtain gx tm where
    gx: "gx < gm" "tm < TM" "fst c \<in> strip BM TM VM gx tm" by blast
  from strip_cover [OF shp(2,4) j] obtain gy tn where
    gy: "gy < gn" "tn < TN" "snd c \<in> strip BN TN VN gy tn" by blast
  define lx where "lx = tm + tn * TM"
  have m: "lx mod TM = tm" unfolding lx_def using gx(2) by simp
  have d: "lx div TM = tn" unfolding lx_def using gx(2) by simp
  have "lx < TM + tn * TM" unfolding lx_def using gx(2) by simp
  also have "\<dots> = Suc tn * TM" by simp
  also have "\<dots> \<le> TN * TM" using gy(2) by (intro mult_le_mono1) simp
  finally have lx: "lx < TM * TN" by (simp add: mult.commute)
  have "c \<in> F ((gx, gy, 0), (lx, 0, 0))" unfolding F m d using gx(3) gy(3) by simp
  moreover have "((gx, gy, 0), (lx, 0, 0)) \<in> set (work_items (gm, gn, 1) (TM * TN, 1, 1))"
    unfolding in_work_items using gx(1) gy(1) lx by simp
  ultimately show "c \<in> (\<Union>w\<in>set (work_items (gm, gn, 1) (TM * TN, 1, 1)). F w)" by blast
qed


lemma vectorized_cover:
  assumes shp: "TM * VM \<noteq> 0" "TN * VN \<noteq> 0" "BM mod (TM * VM) = 0" "BN mod (TN * VN) = 0"
  shows "(\<Union>w\<in>set (work_items (gm, gn, 1) (TM * TN, 1, 1)).
            lane_vector_coords (BM, BN) (TM, TN) (VM, VN) w) =
         coords_of (gm * BM, gn * BN)"
  by (rule strips_cover [OF in_lane_vector_coords [OF shp] shp])

section \<open>The launches of the two kernels\<close>

lemma within_iff:
  "within T dev \<longleftrightarrow> (\<forall>c\<in>coords_of (t_shape T). elem_off T c < length (dev (t_ptr T)))"
  by (auto simp: within_def list_all_iff in_grid_coords in_coords_of)

lemma tiled_region_le: "(m::nat) div B * B \<le> m"
  by (metis div_mult_mod_eq le_add1)

lemma tiled_coords_subset: "coords_of (m div BM * BM, n div BN * BN) \<subseteq> coords_of (m, n)"
proof
  fix c assume "c \<in> coords_of (m div BM * BM, n div BN * BN)"
  then have "fst c < m div BM * BM" "snd c < n div BN * BN" by (simp_all add: in_coords_of)
  then have "fst c < m" "snd c < n"
    using tiled_region_le [of m BM] tiled_region_le [of n BN] by linarith+
  then show "c \<in> coords_of (m, n)" by (simp add: in_coords_of)
qed

lemma source_off_fun:
  "source_off TS TD = (\<lambda>a. elem_off TS (the_inv_into (coords_of (t_shape TD)) (elem_off TD) a))"
  by (rule ext) (simp add: source_off_def)


lemma run_copy_kernel_vectorized:
  assumes S: "S = tiled_divide TS (BM, BN)" and D: "D = tiled_divide TD (BM, BN)"
    and shS: "t_shape TS = (m, n)" and shD: "t_shape TD = (m, n)"
    and ne: "t_ptr TD \<noteq> t_ptr TS"
    and inj: "inj_on (elem_off TD) (coords_of (m, n))"
    and shp: "TM * VM \<noteq> 0" "TN * VN \<noteq> 0" "BM mod (TM * VM) = 0" "BN mod (TN * VN) = 0"
    and ws: "set ws = set (work_items (m div BM, n div BN, 1) (TM * TN, 1, 1))"
    and alS: "aligned_accesses S (TM, TN) (VM, VN) (work_items (m div BM, n div BN, 1) (TM * TN, 1, 1))"
    and alD: "aligned_accesses D (TM, TN) (VM, VN) (work_items (m div BM, n div BN, 1) (TM * TN, 1, 1))"
    and inS: "within TS dev" and inD: "within TD dev"
  shows "run_work_items (copy_kernel_vectorized S D (TM, TN) (VM, VN)) ws dev =
         Inr (dev(t_ptr TD := copy_at (source_off TS TD)
                (elem_off TD ` coords_of (m div BM * BM, n div BN * BN))
                (dev (t_ptr TS)) (dev (t_ptr TD))))"
proof -
  let ?F = "\<lambda>w. elem_off TD ` lane_vector_coords (BM, BN) (TM, TN) (VM, VN) w"
  let ?R = "coords_of (m div BM * BM, n div BN * BN)"
  have cover: "(\<Union>w\<in>set ws. lane_vector_coords (BM, BN) (TM, TN) (VM, VN) w) = ?R"
    unfolding ws by (rule vectorized_cover [OF shp])
  have sub: "lane_vector_coords (BM, BN) (TM, TN) (VM, VN) w \<subseteq> coords_of (m, n)"
    if "w \<in> set ws" for w
    using that cover tiled_coords_subset [of m BM n BN] by blast
  have "run_work_items (copy_kernel_vectorized S D (TM, TN) (VM, VN)) ws dev =
        Inr (dev(t_ptr TD := copy_at (source_off TS TD) (\<Union>w\<in>set ws. ?F w)
               (dev (t_ptr TS)) (dev (t_ptr TD))))"
  proof (rule run_work_items_effect
      [where lS = "length (dev (t_ptr TS))" and lD = "length (dev (t_ptr TD))"])
    show "t_ptr TD \<noteq> t_ptr TS" by (rule ne)
  next
    fix w and dev' :: device
    assume w: "w \<in> set ws" and l: "length (dev' (t_ptr TS)) = length (dev (t_ptr TS))"
      "length (dev' (t_ptr TD)) = length (dev (t_ptr TD))"
    have aS: "\<forall>x\<in>set (lane_vector_bases S (TM, TN) (VM, VN) w). x mod static_size (VM, VN) = 0"
      using alS w ws by (auto simp: aligned_accesses_def list_all_iff)
    have aD: "\<forall>x\<in>set (lane_vector_bases D (TM, TN) (VM, VN) w). x mod static_size (VM, VN) = 0"
      using alD w ws by (auto simp: aligned_accesses_def list_all_iff)
    have bS: "\<forall>c\<in>lane_vector_coords (BM, BN) (TM, TN) (VM, VN) w.
                elem_off TS c < length (dev' (t_ptr TS))"
      using sub [OF w] inS unfolding within_iff shS l(1) by blast
    have bD: "\<forall>c\<in>lane_vector_coords (BM, BN) (TM, TN) (VM, VN) w.
                elem_off TD c < length (dev' (t_ptr TD))"
      using sub [OF w] inD unfolding within_iff shD l(2) by blast
    show "copy_kernel_vectorized S D (TM, TN) (VM, VN) w dev' =
          Inr (dev'(t_ptr TD := copy_at (source_off TS TD) (?F w)
                 (dev' (t_ptr TS)) (dev' (t_ptr TD))))"
      unfolding source_off_fun shD
      by (rule copy_kernel_vectorized_effect [OF S D ne inj sub [OF w] aS aD bS bD])
  qed simp_all
  moreover have "(\<Union>w\<in>set ws. ?F w) = elem_off TD ` ?R"
    unfolding cover [symmetric] by blast
  ultimately show ?thesis by simp
qed

section \<open>The tensors of the driver\<close>

lemma compact_simps:
  "t_ptr (make_tensor p (make_layout (m, n))) = p"
  "t_shape (make_tensor p (make_layout (m, n))) = (m, n)"
  "elem_off (make_tensor p (make_layout (m, n))) c = fst c + snd c * m"
  by (simp_all add: make_tensor_def make_layout_def elem_off_def)

lemma compact_bound:
  assumes "c \<in> coords_of (m, n)"
  shows "fst c + snd c * m < m * n"
proof -
  have i: "fst c < m" and j: "snd c < n" using assms by (simp_all add: in_coords_of)
  have "fst c + snd c * m < m + snd c * m" using i by simp
  also have "\<dots> = Suc (snd c) * m" by simp
  also have "\<dots> \<le> n * m" using j by (intro mult_le_mono1) simp
  finally show ?thesis by (simp add: mult.commute)
qed

lemma compact_inj: "inj_on (elem_off (make_tensor p (make_layout (m, n)))) (coords_of (m, n))"
proof (rule inj_onI)
  fix c c'
  assume c: "c \<in> coords_of (m, n)" and c': "c' \<in> coords_of (m, n)"
    and eq: "elem_off (make_tensor p (make_layout (m, n))) c =
             elem_off (make_tensor p (make_layout (m, n))) c'"
  have i: "fst c < m" "fst c' < m" using c c' by (simp_all add: in_coords_of)
  have e: "fst c + snd c * m = fst c' + snd c' * m" using eq by (simp add: compact_simps)
  have "(fst c + snd c * m) mod m = fst c" "(fst c' + snd c' * m) mod m = fst c'"
    using i by simp_all
  then have f: "fst c = fst c'" using e by simp
  have "(fst c + snd c * m) div m = snd c" "(fst c' + snd c' * m) div m = snd c'"
    using i by simp_all
  then have "snd c = snd c'" using e by simp
  then show "c = c'" using f by (simp add: prod_eq_iff)
qed

lemma compact_image:
  "elem_off (make_tensor p (make_layout (m, n))) ` coords_of (m, n) = {..<m * n}"
proof (intro set_eqI iffI)
  fix a assume "a \<in> elem_off (make_tensor p (make_layout (m, n))) ` coords_of (m, n)"
  then obtain c where "c \<in> coords_of (m, n)" "a = fst c + snd c * m"
    by (auto simp: compact_simps)
  then show "a \<in> {..<m * n}" using compact_bound [of c m n] by simp
next
  fix a assume "a \<in> {..<m * n}"
  then have a: "a < m * n" by simp
  then have m: "0 < m" by (cases m) simp_all
  have "(a mod m, a div m) \<in> coords_of (m, n)"
    using a m by (simp add: in_coords_of less_mult_imp_div_less mult.commute)
  moreover have "elem_off (make_tensor p (make_layout (m, n))) (a mod m, a div m) = a"
    by (simp add: compact_simps)
  ultimately show "a \<in> elem_off (make_tensor p (make_layout (m, n))) ` coords_of (m, n)"
    by (metis imageI)
qed

lemma compact_within:
  assumes "m * n \<le> length (dev p)"
  shows "within (make_tensor p (make_layout (m, n))) dev"
  unfolding within_iff compact_simps using compact_bound [of _ m n] assms by fastforce

lemma compact_source_off:
  assumes "a < m * n"
  shows "source_off (make_tensor p (make_layout (m, n))) (make_tensor q (make_layout (m, n))) a = a"
proof -
  have eq: "elem_off (make_tensor p (make_layout (m, n))) =
            elem_off (make_tensor q (make_layout (m, n)))"
    by (rule ext) (simp add: compact_simps)
  have "a \<in> elem_off (make_tensor q (make_layout (m, n))) ` coords_of (m, n)"
    using assms by (simp add: compact_image)
  then have "elem_off (make_tensor q (make_layout (m, n)))
          (the_inv_into (coords_of (m, n)) (elem_off (make_tensor q (make_layout (m, n)))) a) = a"
    by (rule f_the_inv_into_f [OF compact_inj])
  then show ?thesis
    by (simp only: source_off_def eq compact_simps(2))
qed

text \<open>The vector accesses of \<^verbatim>\<open>main\<close>: a vector of \<open>VM\<close> contiguous elements, on tiles and
  columns whose extents are multiples of \<open>VM\<close>.\<close>

lemma aligned_accesses_column:
  assumes "VM dvd BM" "VM dvd m"
  shows "aligned_accesses (tiled_divide (make_tensor p (make_layout (m, n))) (BM, BN))
           (TM, TN) (VM, 1) ws"
proof -
  have "x mod static_size (VM, 1) = 0"
    if "x \<in> set (lane_vector_bases (tiled_divide (make_tensor p (make_layout (m, n))) (BM, BN))
                   (TM, TN) (VM, 1) w)" for w x
  proof (rule work_item_cases [of w])
    fix gx gy gz lx ly lz
    assume w: "w = ((gx, gy, gz), (lx, ly, lz))"
    from that obtain a b where
      x: "x = (gx * BM + lx mod TM * VM + a * (TM * VM))
              + (gy * BN + lx div TM * 1 + b * (TN * 1)) * m"
      unfolding w lane_vector_bases_coords set_map image_iff Bex_def in_lane_base_coords
      by (auto simp: compact_simps)
    have "VM dvd x" unfolding x using assms by (intro dvd_add dvd_mult dvd_mult2) simp_all
    then show ?thesis by (simp add: static_size_def mod_eq_0_iff_dvd)
  qed
  then show ?thesis by (auto simp: aligned_accesses_def list_all_iff)
qed

text \<open>The whole copy: a launch of the vectorized kernel on the driver's tensors.\<close>

lemma run_driver_launch:
  assumes shp: "TM * VM \<noteq> 0" "TN \<noteq> 0" "BM mod (TM * VM) = 0" "BN mod TN = 0"
    and ext: "m mod BM = 0" "n mod BN = 0"
    and ws: "set ws = set (work_items (m div BM, n div BN, 1) (TM * TN, 1, 1))"
    and len: "length (dev d_S) = m * n" "length (dev d_D) = m * n"
  shows "run_work_items
           (copy_kernel_vectorized (tiled_divide (make_tensor d_S (make_layout (m, n))) (BM, BN))
                                   (tiled_divide (make_tensor d_D (make_layout (m, n))) (BM, BN))
                                   (TM, TN) (VM, 1)) ws dev =
         Inr (dev(d_D := dev d_S))"
proof -
  let ?TS = "make_tensor d_S (make_layout (m, n))"
  let ?TD = "make_tensor d_D (make_layout (m, n))"
  have shp1: "TM * VM \<noteq> 0" "TN * 1 \<noteq> 0" "BM mod (TM * VM) = 0" "BN mod (TN * 1) = 0"
    using shp by simp_all
  have "VM dvd TM * VM" by simp
  moreover have "TM * VM dvd BM" using shp(3) by (simp add: mod_eq_0_iff_dvd)
  ultimately have VB: "VM dvd BM" by (rule dvd_trans)
  have "BM dvd m" using ext(1) by (simp add: mod_eq_0_iff_dvd)
  with VB have Vm: "VM dvd m" by (rule dvd_trans)
  have full: "coords_of (m div BM * BM, n div BN * BN) = coords_of (m, n)"
    using ext by (simp add: mod_eq_0_iff_dvd)
  have "run_work_items (copy_kernel_vectorized (tiled_divide ?TS (BM, BN))
          (tiled_divide ?TD (BM, BN)) (TM, TN) (VM, 1)) ws dev =
        Inr (dev(t_ptr ?TD := copy_at (source_off ?TS ?TD)
               (elem_off ?TD ` coords_of (m div BM * BM, n div BN * BN))
               (dev (t_ptr ?TS)) (dev (t_ptr ?TD))))"
  proof (rule run_copy_kernel_vectorized [OF refl refl _ _ _ _ shp1 ws])
    show "t_shape ?TS = (m, n)" "t_shape ?TD = (m, n)" by (simp_all add: compact_simps)
    show "t_ptr ?TD \<noteq> t_ptr ?TS" by (simp add: compact_simps)
    show "inj_on (elem_off ?TD) (coords_of (m, n))" by (rule compact_inj)
    show "aligned_accesses (tiled_divide ?TS (BM, BN)) (TM, TN) (VM, 1)
            (work_items (m div BM, n div BN, 1) (TM * TN, 1, 1))"
      by (rule aligned_accesses_column [OF VB Vm])
    show "aligned_accesses (tiled_divide ?TD (BM, BN)) (TM, TN) (VM, 1)
            (work_items (m div BM, n div BN, 1) (TM * TN, 1, 1))"
      by (rule aligned_accesses_column [OF VB Vm])
    show "within ?TS dev" "within ?TD dev" by (simp_all add: compact_within len)
  qed
  moreover have "copy_at (source_off ?TS ?TD) {..<m * n} (dev d_S) (dev d_D) = dev d_S"
    by (rule copy_at_full) (simp_all add: len compact_source_off)
  ultimately show ?thesis
    by (simp only: full compact_image compact_simps(1))
qed

section \<open>The driver on extents that pass the checks\<close>

lemma float_of_nat_not_nan: "\<not> is_nan (float_of_nat i)"
  by (simp add: float_of_nat_def is_nan_def Let_def)

lemma float_ne_same: "float_ne x x = is_nan x"
  by (auto simp: float_ne_def float_eq_def)

lemma reported_same:
  assumes "\<forall>x\<in>set h. \<not> is_nan x"
  shows "reported h h = []"
  using assms by (auto simp: reported_def float_ne_same filter_empty_conv)

lemma verify_same:
  "verify (map float_of_nat [0..<k]) (map float_of_nat [0..<k]) = ([Cout ''Success.''], 0)"
proof -
  have "reported (map float_of_nat [0..<k]) (map float_of_nat [0..<k]) = []"
    by (rule reported_same) (auto simp: float_of_nat_not_nan)
  then show ?thesis by (simp add: verify_char)
qed

lemma size_of_ok:
  assumes "m \<le> INT_MAX" "n \<le> INT_MAX" "m * n \<le> INT_MAX"
  shows "size_of (m, n) = Inr (m * n)"
  using assms by (simp add: size_of_def)

lemma main_body_success:
  assumes tile: "BM mod 128 = 0" "BN mod 8 = 0" "0 < BM" "0 < BN"
    and ext: "m mod BM = 0" "n mod BN = 0"
    and rng: "m \<le> INT_MAX" "n \<le> INT_MAX" "m * n \<le> INT_MAX"
    and sched: "valid_schedule (m div BM, n div BN, 1) (256, 1, 1) sched"
  shows "main_body (m, n) (BM, BN) sched =
         Inr \<lparr>exit_code = 0, console = [Cout ''Success.''],
              launched = [(Copy_kernel_vectorized
                             (tiled_divide (make_tensor d_S (make_layout (m, n))) (BM, BN))
                             (tiled_divide (make_tensor d_D (make_layout (m, n))) (BM, BN))
                             thr_layout vec_layout,
                           (m div BM, n div BN, 1), (256, 1, 1))],
              device_mem = (\<lambda>p. map float_of_nat [0..<m * n]),
              host_D = map float_of_nat [0..<m * n]\<rparr>"
proof -
  define h_S where "h_S = map float_of_nat [0..<m * n]"
  define h_D where "h_D = replicate (m * n) (Float32 False 0 0)"
  define dev :: device where "dev = (\<lambda>p. case p of d_S \<Rightarrow> h_S | d_D \<Rightarrow> h_D)"
  define S where "S = tiled_divide (make_tensor d_S (make_layout (m, n))) (BM, BN)"
  define D where "D = tiled_divide (make_tensor d_D (make_layout (m, n))) (BM, BN)"
  have shp: "(32::nat) * 4 \<noteq> 0" "(8::nat) \<noteq> 0" "BM mod (32 * 4) = 0" "BN mod 8 = 0"
    using tile by simp_all
  have ws: "set (sched (work_items (m div BM, n div BN, 1) (32 * 8, 1, 1))) =
            set (work_items (m div BM, n div BN, 1) (32 * 8, 1, 1))"
    using sched by (simp add: valid_schedule_def)
  have len: "length (dev d_S) = m * n" "length (dev d_D) = m * n"
    by (simp_all add: dev_def h_S_def h_D_def)
  have "run_work_items (copy_kernel_vectorized S D (32, 8) (4, 1))
          (sched (work_items (m div BM, n div BN, 1) (32 * 8, 1, 1))) dev = Inr (dev(d_D := dev d_S))"
    unfolding S_def D_def by (rule run_driver_launch [OF shp ext ws len])
  then have la: "run_work_items (copy_kernel_vectorized S D (32, 8) (4, 1))
          (sched (work_items (m div BM, n div BN, 1) (256, 1, 1))) dev = Inr (\<lambda>p. h_S)"
    by (simp add: dev_def fun_eq_iff split: dev_ptr.split)
  have nd: "\<not> not_divisible (m, n) (BM, BN)" using ext by (simp add: not_divisible_def)
  then have ed: "evenly_divides (m, n) (BM, BN)"
    using checks_agree [of "(BM, BN)" "(m, n)"] tile(3,4) by simp
  have vs: "verify h_S h_S = ([Cout ''Success.''], 0)"
    unfolding h_S_def by (rule verify_same)
  have grid: "tt_rest D = (m div BM, n div BN)"
    by (simp add: D_def tiled_divide_def make_tensor_def make_layout_def)
  have sz: "static_size thr_layout = 256"
    by (simp add: static_size_def thr_layout_def)
  show ?thesis
    unfolding main_body_def size_of_ok [OF rng] sum.case h_S_def [symmetric] h_D_def [symmetric]
      Let_def dev_def [symmetric] S_def [symmetric] D_def [symmetric]
    using nd ed la vs grid sz
    by (simp add: launch_def thr_layout_def vec_layout_def)
qed

lemma valid_schedule_id: "valid_schedule g b (\<lambda>ws. ws)"
  by (simp add: valid_schedule_def)

lemma valid_schedule_rev: "valid_schedule g b rev"
  by (simp add: valid_schedule_def)

lemma INT_MAX_numeral: "INT_MAX = 2147483647"
  by (simp add: INT_MAX_def)

section \<open>What the verification loop reports\<close>

text \<open>
  C4, amended. When the two host buffers, of the same length, differ as floats compare
  (a NaN on either side, or different values that are not both a zero) at ten or more
  indices, exactly the first ten of these index/value pairs are printed, followed by the
  abort line; the loop is left at the index of the tenth, and the exit status is \<open>-1\<close>.
\<close>

theorem ten_mismatches_abort:
  assumes "length h_S = length h_D"
    and "10 \<le> length (differing h_S h_D)"
  shows "verify_loop h_S h_D 0 0 [] =
           (map (mismatch_line h_S h_D) (take 10 (differing h_S h_D))
              @ [Cerr ''Aborting on 10nth error.''],
            differing h_S h_D ! 9, Some (- 1))
         \<and> length (take 10 (differing h_S h_D)) = 10
         \<and> verify h_S h_D =
           (map (mismatch_line h_S h_D) (take 10 (differing h_S h_D))
              @ [Cerr ''Aborting on 10nth error.''], - 1)"
  using assms(2) verify_loop_char [of 0 0 h_D h_S "[]"]
  by (simp add: verify_char reported_differing [symmetric] reported_def Let_def)

theorem ten_mismatches_abort_witness:
  "verify (replicate 11 (Float32 False 127 0)) (replicate 11 (Float32 False 0 0)) =
     (map (mismatch_line (replicate 11 (Float32 False 127 0)) (replicate 11 (Float32 False 0 0)))
          (take 10 (differing (replicate 11 (Float32 False 127 0))
                              (replicate 11 (Float32 False 0 0))))
        @ [Cerr ''Aborting on 10nth error.''], - 1)"
proof -
  have len: "length (replicate 11 (Float32 False 127 0)) = length (replicate 11 (Float32 False 0 0))"
    by simp
  have ten: "10 \<le> length (differing (replicate 11 (Float32 False 127 0))
                                     (replicate 11 (Float32 False 0 0)))"
    by code_simp
  show ?thesis using ten_mismatches_abort [OF len ten] by simp
qed

text \<open>
  Read as bit patterns, the property fails. Ten elements \<open>+0.0\<close> against ten elements \<open>-0.0\<close>
  differ at every index, and the loop prints nothing and reports success. And with a NaN
  of the same bits at index 0 of both buffers, followed by ten elements that differ, the
  first pair printed does not differ and the tenth difference is never printed.
\<close>

theorem bit_differences_counterexample:
  "length (bit_differing (replicate 10 (Float32 False 0 0)) (replicate 10 (Float32 True 0 0))) = 10
   \<and> verify (replicate 10 (Float32 False 0 0)) (replicate 10 (Float32 True 0 0)) =
       ([Cout ''Success.''], 0)
   \<and> bit_differing (Float32 False 255 1 # replicate 10 (Float32 False 127 0))
                    (Float32 False 255 1 # replicate 10 (Float32 False 0 0)) =
       [1, 2, 3, 4, 5, 6, 7, 8, 9, 10]
   \<and> verify (Float32 False 255 1 # replicate 10 (Float32 False 127 0))
             (Float32 False 255 1 # replicate 10 (Float32 False 0 0)) =
       (map (mismatch_line (Float32 False 255 1 # replicate 10 (Float32 False 127 0))
                           (Float32 False 255 1 # replicate 10 (Float32 False 0 0)))
            [0, 1, 2, 3, 4, 5, 6, 7, 8, 9] @ [Cerr ''Aborting on 10nth error.''], - 1)"
proof (intro conjI)
  show "length (bit_differing (replicate 10 (Float32 False 0 0)) (replicate 10 (Float32 True 0 0))) = 10"
    by code_simp
  have "reported (replicate 10 (Float32 False 0 0)) (replicate 10 (Float32 True 0 0)) = []"
    by code_simp
  then show "verify (replicate 10 (Float32 False 0 0)) (replicate 10 (Float32 True 0 0)) =
       ([Cout ''Success.''], 0)"
    by (simp add: verify_char)
  show "bit_differing (Float32 False 255 1 # replicate 10 (Float32 False 127 0))
                    (Float32 False 255 1 # replicate 10 (Float32 False 0 0)) =
       [1, 2, 3, 4, 5, 6, 7, 8, 9, 10]"
    by code_simp
  define hS where "hS = Float32 False 255 1 # replicate 10 (Float32 False 127 0)"
  define hD where "hD = Float32 False 255 1 # replicate 10 (Float32 False 0 0)"
  have r: "reported hS hD = [0, 1, 2, 3, 4, 5, 6, 7, 8, 9, 10]"
    unfolding hS_def hD_def by code_simp
  have "verify hS hD =
        (map (mismatch_line hS hD) [0, 1, 2, 3, 4, 5, 6, 7, 8, 9]
           @ [Cerr ''Aborting on 10nth error.''], - 1)"
    unfolding verify_char r by simp
  then show "verify (Float32 False 255 1 # replicate 10 (Float32 False 127 0))
             (Float32 False 255 1 # replicate 10 (Float32 False 0 0)) =
       (map (mismatch_line (Float32 False 255 1 # replicate 10 (Float32 False 127 0))
                           (Float32 False 255 1 # replicate 10 (Float32 False 0 0)))
            [0, 1, 2, 3, 4, 5, 6, 7, 8, 9] @ [Cerr ''Aborting on 10nth error.''], - 1)"
    unfolding hS_def hD_def .
qed

text \<open>
  C2. With fewer than ten mismatches the loop prints each of them, but the exit status
  does not reflect the failure: at a result buffer that differs from the source at
  exactly one index, the mismatch line is followed by \<^verbatim>\<open>Success.\<close> and the exit code is 0.
\<close>

theorem one_mismatch_exits_zero:
  "verify [Float32 False 0 0, Float32 False 127 0] [Float32 False 0 0, Float32 False 0 0] =
     ([CerrMismatch 1 (Float32 False 127 0) (Float32 False 0 0), Cout ''Success.''], 0)"
  by (simp add: verify_char reported_def mismatch_line_def float_ne_def float_eq_def
      is_nan_def is_zero_def upt_rec)

section \<open>The run on extents that fail the first check\<close>

text \<open>
  C3, amended. When the array extents and their product are values of \<^verbatim>\<open>int\<close> and some
  array extent is not an exact multiple of the corresponding tile extent, the program
  prints the message of the first check and exits with \<open>-1\<close>; no kernel has been
  launched, and the destination on the device is as it was initialised.
\<close>

theorem indivisible_extents_exit_before_launch:
  assumes "0 < fst block_shape" "0 < snd block_shape"
    and "\<not> (fst block_shape dvd fst tensor_shape \<and> snd block_shape dvd snd tensor_shape)"
    and "fst tensor_shape \<le> INT_MAX" "snd tensor_shape \<le> INT_MAX"
    and "fst tensor_shape * snd tensor_shape \<le> INT_MAX"
  shows "\<exists>r. main_body tensor_shape block_shape sched = Inr r \<and> exit_code r = - 1 \<and>
             console r = [Cerr ''The tensor shape must be divisible by the block shape.''] \<and>
             launched r = [] \<and>
             device_mem r d_D =
               replicate (fst tensor_shape * snd tensor_shape) (Float32 False 0 0)"
  using assms
  by (auto simp: main_body_def size_of_def Let_def not_divisible_def mod_eq_0_iff_dvd)

theorem indivisible_extents_exit_before_launch_witness:
  "\<exists>r. main_body (100, 100) (128, 64) rev = Inr r \<and> exit_code r = - 1 \<and>
       console r = [Cerr ''The tensor shape must be divisible by the block shape.''] \<and>
       launched r = [] \<and> device_mem r d_D = replicate (100 * 100) (Float32 False 0 0)"
proof -
  have a: "0 < fst (128 :: nat, 64 :: nat)" by simp
  have b: "0 < snd (128 :: nat, 64 :: nat)" by simp
  have c: "\<not> (fst (128 :: nat, 64 :: nat) dvd fst (100 :: nat, 100 :: nat)
              \<and> snd (128 :: nat, 64 :: nat) dvd snd (100 :: nat, 100 :: nat))"
    by simp
  have d: "fst (100 :: nat, 100 :: nat) \<le> INT_MAX" "snd (100 :: nat, 100 :: nat) \<le> INT_MAX"
    "fst (100 :: nat, 100 :: nat) * snd (100 :: nat, 100 :: nat) \<le> INT_MAX"
    by (simp_all add: INT_MAX_def)
  show ?thesis using indivisible_extents_exit_before_launch [OF a b c d, of rev] by simp
qed

text \<open>
  Without the bound the property fails: the product of the extents \<open>(46341, 46341)\<close>, which
  are not multiples of the tile extents, is above \<open>INT_MAX\<close>, and the buffers are sized
  with it before the check is reached.
\<close>

theorem indivisible_extents_overflow_counterexample:
  "\<not> (128 dvd (46341::nat) \<and> 64 dvd (46341::nat))
   \<and> (46341::nat) \<le> INT_MAX
   \<and> main_body (46341, 46341) (128, 64) (\<lambda>ws. ws) = Inl SignedOverflow"
  by (simp add: main_body_def size_of_def INT_MAX_def)

text \<open>
  C10. For tile extents that are positive, the modulus check of line 190 and the library
  check of line 195 decide the same condition; so no run prints the message of the second
  check.
\<close>

theorem second_check_never_fires:
  assumes "0 < fst block_shape" "0 < snd block_shape"
  shows "not_divisible tensor_shape block_shape = (\<not> evenly_divides tensor_shape block_shape) \<and>
         (\<forall>r. main_body tensor_shape block_shape sched = Inr r \<longrightarrow>
              Cerr ''Expected the block_shape to evenly divide the tensor shape.'' \<notin> set (console r))"
proof (intro conjI allI impI)
  show eq: "not_divisible tensor_shape block_shape = (\<not> evenly_divides tensor_shape block_shape)"
    using assms by (rule checks_agree)
  fix r assume r: "main_body tensor_shape block_shape sched = Inr r"
  show "Cerr ''Expected the block_shape to evenly divide the tensor shape.'' \<notin> set (console r)"
  proof (cases "not_divisible tensor_shape block_shape")
    case True
    then show ?thesis using r by (auto simp: main_body_def Let_def split: sum.splits)
  next
    case False
    then have "evenly_divides tensor_shape block_shape" using eq by simp
    then show ?thesis using r False verify_console
      by (auto simp: main_body_def Let_def split: sum.splits prod.splits) (metis fst_conv)
  qed
qed

theorem second_check_never_fires_witness:
  "not_divisible (100, 100) (128, 64) = (\<not> evenly_divides (100, 100) (128, 64)) \<and>
   (\<exists>r. main_body (100, 100) (128, 64) (\<lambda>ws. ws) = Inr r \<and>
        Cerr ''Expected the block_shape to evenly divide the tensor shape.'' \<notin> set (console r))"
proof -
  have a: "0 < fst (128 :: nat, 64 :: nat)" by simp
  have b: "0 < snd (128 :: nat, 64 :: nat)" by simp
  have "\<exists>r. main_body (100, 100) (128, 64) (\<lambda>ws. ws) = Inr r"
    by (simp add: main_body_def size_of_def INT_MAX_def Let_def not_divisible_def)
  then show ?thesis
    using second_check_never_fires [OF a b, of "(100, 100)" "\<lambda>ws. ws"] by blast
qed

section \<open>The command line\<close>

text \<open>
  C9. Two runs that differ only in their command-line arguments behave the same: the
  console output and the exit code do not depend on \<open>argc\<close> and \<open>argv\<close>.
\<close>

theorem arguments_unused:
  "main argc argv sched = main argc' argv' sched"
  by (simp add: main_def)

section \<open>The copy\<close>

text \<open>
  With tiles of \<open>(64, 8)\<close> on an array of \<open>(64, 8)\<close>, the last lane of the block reads
  beyond the allocation of the source.
\<close>

lemma work_items_snoc:
  "work_items (1, 1, 1) (Suc k, 1, 1) = work_items (1, 1, 1) (k, 1, 1) @ [((0, 0, 0), (k, 0, 0))]"
  by (simp add: work_items_def indices_def)

lemma last_lane_out_of_bounds:
  assumes "length (dev d_S) = 512"
  shows "copy_kernel_vectorized (tiled_divide (make_tensor d_S (make_layout (64, 8))) (64, 8))
           (tiled_divide (make_tensor d_D (make_layout (64, 8))) (64, 8))
           (32, 8) (4, 1) ((0, 0, 0), (255, 0, 0)) dev = Inl OutOfBounds"
proof -
  define C where "C = partition_copy
    (slice_tile (tiled_divide (make_tensor d_S (make_layout (64, 8))) (64, 8)) 0 0) (32, 8) (4, 1) 255"
  have b: "vector_bases C = [572]" unfolding C_def by code_simp
  have o: "vector_offsets C 572 = [572, 573, 574, 575]" unfolding C_def by code_simp
  have p: "c_ptr C = d_S" and v: "static_size (c_vec C) = 4" unfolding C_def by code_simp+
  have "copy_atom_to_fragment dev C = Inl OutOfBounds"
    by (simp add: copy_atom_to_fragment_def b o p v assms)
  then show ?thesis
    unfolding copy_kernel_vectorized_def Let_def prod.case C_def [symmetric]
    by (simp only: sum.case)
qed

text \<open>
  C1, amended. For array extents that, with their product, are values of \<^verbatim>\<open>int\<close> and
  are exact multiples of the tile extents, and tile extents that are positive multiples of
  what the lanes cover in one pass (128 rows by 8 columns: the thread arrangement
  \<open>(32, 8)\<close> composed with the vector shape \<open>(4, 1)\<close>), the run tiles the two tensors,
  launches the vectorized kernel over all tiles and waits, under any valid schedule; the
  destination array then equals the source array, element for element as bit fields, on
  the device and in the host copy.
\<close>

theorem copy_bit_identical:
  assumes "BM mod 128 = 0" "BN mod 8 = 0" "0 < BM" "0 < BN"
    and "m mod BM = 0" "n mod BN = 0"
    and "m \<le> INT_MAX" "n \<le> INT_MAX" "m * n \<le> INT_MAX"
    and "valid_schedule (m div BM, n div BN, 1) (256, 1, 1) sched"
  shows "\<exists>r. main_body (m, n) (BM, BN) sched = Inr r \<and>
             device_mem r d_D = device_mem r d_S \<and>
             device_mem r d_S = map float_of_nat [0..<m * n] \<and>
             host_D r = map float_of_nat [0..<m * n]"
  using main_body_success [OF assms] by simp

theorem copy_bit_identical_witness:
  "\<exists>r. main_body (256, 16) (128, 8) rev = Inr r \<and>
       device_mem r d_D = device_mem r d_S \<and>
       device_mem r d_S = map float_of_nat [0..<256 * 16] \<and>
       host_D r = map float_of_nat [0..<256 * 16]"
proof -
  have v: "valid_schedule (256 div 128, 16 div 8, 1) (256, 1, 1) rev"
    by (rule valid_schedule_rev)
  show ?thesis
    by (rule copy_bit_identical [OF _ _ _ _ _ _ _ _ _ v]) (simp_all add: INT_MAX_def)
qed

text \<open>
  Divisibility of the array by the tile is not enough. At the extents \<open>(65536, 65536)\<close>,
  multiples of the tile extents \<open>(128, 64)\<close>, the product that sizes the buffers is above
  \<open>INT_MAX\<close>. And with tiles of \<open>(64, 8)\<close> on an array of \<open>(64, 8)\<close> both checks pass, but
  the tile is smaller than the 128 rows that the lanes cover in one pass: the last lane
  reads beyond the allocation.
\<close>

theorem copy_needs_bounds_counterexample:
  "65536 mod 128 = (0::nat) \<and> 65536 mod 64 = (0::nat)
   \<and> main_body (65536, 65536) (128, 64) (\<lambda>ws. ws) = Inl SignedOverflow
   \<and> 64 mod 64 = (0::nat) \<and> 8 mod 8 = (0::nat)
   \<and> valid_schedule (64 div 64, 8 div 8, 1) (256, 1, 1) rev
   \<and> main_body (64, 8) (64, 8) rev = Inl OutOfBounds"
proof -
  have ov: "main_body (65536, 65536) (128, 64) (\<lambda>ws. ws) = Inl SignedOverflow"
    by (simp add: main_body_def size_of_def INT_MAX_def)
  define S where "S = tiled_divide (make_tensor d_S (make_layout (64, 8))) (64, 8)"
  define D where "D = tiled_divide (make_tensor d_D (make_layout (64, 8))) (64, 8)"
  define ws where "ws = rev (work_items (1, 1, 1) (255, 1, 1))"
  have r: "rev (work_items (1, 1, 1) (256, 1, 1)) = ((0, 0, 0), (255, 0, 0)) # ws"
    using work_items_snoc [of 255] by (simp add: ws_def)
  have run: "run_work_items (copy_kernel_vectorized S D (32, 8) (4, 1))
               (rev (work_items (1, 1, 1) (256, 1, 1))) dev = Inl OutOfBounds"
    if "length (dev d_S) = 512" for dev
    unfolding r S_def D_def using last_lane_out_of_bounds [of dev] that by simp
  have sz: "size_of (64, 8) = Inr 512" by (simp add: size_of_def INT_MAX_def)
  have nd: "\<not> not_divisible (64, 8) (64, 8)" by (simp add: not_divisible_def)
  then have ed: "evenly_divides (64, 8) (64, 8)"
    using checks_agree [of "(64, 8)" "(64, 8)"] by simp
  have grid: "tt_rest D = (1, 1)"
    by (simp add: D_def tiled_divide_def make_tensor_def make_layout_def)
  have bl: "static_size thr_layout = 256" by (simp add: static_size_def thr_layout_def)
  have "main_body (64, 8) (64, 8) rev = Inl OutOfBounds"
    unfolding main_body_def sz sum.case Let_def S_def [symmetric] D_def [symmetric] grid bl
      launch_def
    using nd ed by (simp add: thr_layout_def vec_layout_def run del: One_nat_def)
  then show ?thesis using ov by (simp add: valid_schedule_rev)
qed

text \<open>
  C6. The program as written, an array of shape \<open>(256, 512)\<close> holding \<open>0 .. 131071\<close>,
  tiles of shape \<open>(128, 64)\<close>, the thread arrangement \<open>(32, 8)\<close> and the vector shape
  \<open>(4, 1)\<close>: under any valid schedule of its 16 work groups of 256 lanes, the
  destination ends identical to the source, the console shows \<^verbatim>\<open>Success.\<close> and nothing
  else, and the exit code is 0.
\<close>

theorem main_as_written_succeeds:
  assumes "valid_schedule (2, 8, 1) (256, 1, 1) sched"
  shows "\<exists>r. main argc argv sched = Inr r \<and>
             exit_code r = 0 \<and> console r = [Cout ''Success.''] \<and>
             device_mem r d_D = device_mem r d_S \<and>
             device_mem r d_S = map float_of_nat [0..<131072] \<and>
             host_D r = map float_of_nat [0..<131072]"
proof -
  have v: "valid_schedule (256 div 128, 512 div 64, 1) (256, 1, 1) sched"
    using assms by simp
  show ?thesis
    unfolding main_def
    using main_body_success [OF _ _ _ _ _ _ _ _ _ v]
    by (simp add: INT_MAX_def)
qed

theorem main_as_written_succeeds_witness:
  "\<exists>r. main 1 [''tiled_copy_sycl''] rev = Inr r \<and>
       exit_code r = 0 \<and> console r = [Cout ''Success.''] \<and>
       device_mem r d_D = device_mem r d_S \<and>
       device_mem r d_S = map float_of_nat [0..<131072] \<and>
       host_D r = map float_of_nat [0..<131072]"
  by (rule main_as_written_succeeds [OF valid_schedule_rev])

section \<open>The launch of the driver\<close>

text \<open>What a run that passes both checks has done: one launch, of the vectorized kernel.\<close>

lemma main_body_launch:
  assumes r: "main_body (m, n) (BM, BN) sched = Inr r"
    and pos: "0 < BM" "0 < BN" and ext: "m mod BM = 0" "n mod BN = 0"
    and S: "S = tiled_divide (make_tensor d_S (make_layout (m, n))) (BM, BN)"
    and D: "D = tiled_divide (make_tensor d_D (make_layout (m, n))) (BM, BN)"
  shows "launch (Copy_kernel_vectorized S D thr_layout vec_layout)
           (fst (tt_rest D), snd (tt_rest D), 1) (static_size thr_layout, 1, 1) sched
           \<lparr>mem = (\<lambda>p. case p of d_S \<Rightarrow> map float_of_nat [0..<m * n]
                              | d_D \<Rightarrow> replicate (m * n) (Float32 False 0 0)),
            launches = []\<rparr>
         = Inr \<lparr>mem = device_mem r, launches = launched r\<rparr>"
proof -
  have nd: "\<not> not_divisible (m, n) (BM, BN)" using ext by (simp add: not_divisible_def)
  then have ed: "evenly_divides (m, n) (BM, BN)"
    using checks_agree [of "(BM, BN)" "(m, n)"] pos by simp
  from r have sz: "size_of (m, n) = Inr (m * n)"
    by (auto simp: main_body_def size_of_def split: if_splits)
  define rt where "rt = \<lparr>mem = (\<lambda>p. case p of d_S \<Rightarrow> map float_of_nat [0..<m * n]
                              | d_D \<Rightarrow> replicate (m * n) (Float32 False 0 0)),
            launches = []\<rparr>"
  define la where "la = launch (Copy_kernel_vectorized S D thr_layout vec_layout)
           (fst (tt_rest D), snd (tt_rest D), 1) (static_size thr_layout, 1, 1) sched rt"
  have "main_body (m, n) (BM, BN) sched =
          (case la of Inl f \<Rightarrow> Inl f
           | Inr rt' \<Rightarrow>
               (case verify (map float_of_nat [0..<m * n]) (mem rt' d_D) of
                  (out, rc) \<Rightarrow>
                    Inr \<lparr>exit_code = rc, console = out, launched = launches rt',
                         device_mem = mem rt', host_D = mem rt' d_D\<rparr>))"
    unfolding main_body_def sz sum.case Let_def la_def rt_def S D
    using nd ed by (simp only: if_False if_True not_True_eq_False not_not)
  with r obtain rt' where "la = Inr rt'" and "device_mem r = mem rt'" "launched r = launches rt'"
    by (auto split: sum.splits prod.splits)
  then show ?thesis unfolding la_def rt_def by simp
qed

text \<open>
  C7. In a run that passes the checks and returns, the device has carried out exactly one
  launch: of the vectorized kernel on the two tiled tensors, over a grid that is the two
  tile-count modes of the tiled destination tensor (rows over tile rows, columns over
  tile columns), with blocks of the lane count of the thread arrangement,
  \<open>32 * 8 = 256\<close>. The device memory of the run is what the work items of that grid and
  that block, each running the vectorized kernel, leave behind. The naive kernel is not
  launched.
\<close>

theorem one_vectorized_launch:
  assumes "main_body (m, n) (BM, BN) sched = Inr r"
    and "0 < BM" "0 < BN" "m mod BM = 0" "n mod BN = 0"
    and "S = tiled_divide (make_tensor d_S (make_layout (m, n))) (BM, BN)"
    and "D = tiled_divide (make_tensor d_D (make_layout (m, n))) (BM, BN)"
  shows "launched r = [(Copy_kernel_vectorized S D thr_layout vec_layout,
                        (fst (tt_rest D), snd (tt_rest D), 1), (static_size thr_layout, 1, 1))]
         \<and> tt_rest D = (m div BM, n div BN)
         \<and> static_size thr_layout = 32 * 8
         \<and> run_work_items (copy_kernel_vectorized S D thr_layout vec_layout)
             (sched (work_items (m div BM, n div BN, 1) (32 * 8, 1, 1)))
             (\<lambda>p. case p of d_S \<Rightarrow> map float_of_nat [0..<m * n]
                           | d_D \<Rightarrow> replicate (m * n) (Float32 False 0 0))
           = Inr (device_mem r)"
proof -
  have g: "tt_rest D = (m div BM, n div BN)"
    using assms(7) by (simp add: tiled_divide_def make_tensor_def make_layout_def)
  have b: "static_size thr_layout = 32 * 8" by (simp add: static_size_def thr_layout_def)
  show ?thesis
    using main_body_launch [OF assms] unfolding g b
    by (auto simp: launch_def split: sum.splits)
qed

theorem one_vectorized_launch_witness:
  "\<exists>r. main_body (256, 512) (128, 64) rev = Inr r \<and>
       launched r = [(Copy_kernel_vectorized
                        (tiled_divide (make_tensor d_S (make_layout (256, 512))) (128, 64))
                        (tiled_divide (make_tensor d_D (make_layout (256, 512))) (128, 64))
                        (32, 8) (4, 1),
                      (2, 8, 1), (256, 1, 1))] \<and>
       run_work_items (copy_kernel_vectorized
                        (tiled_divide (make_tensor d_S (make_layout (256, 512))) (128, 64))
                        (tiled_divide (make_tensor d_D (make_layout (256, 512))) (128, 64))
                        (32, 8) (4, 1))
         (rev (work_items (2, 8, 1) (256, 1, 1)))
         (\<lambda>p. case p of d_S \<Rightarrow> map float_of_nat [0..<131072]
                       | d_D \<Rightarrow> replicate 131072 (Float32 False 0 0))
       = Inr (device_mem r)"
proof -
  have v: "valid_schedule (256 div 128, 512 div 64, 1) (256, 1, 1) rev"
    by (rule valid_schedule_rev)
  have "\<exists>r. main_body (256, 512) (128, 64) rev = Inr r"
    using main_body_success [OF _ _ _ _ _ _ _ _ _ v] by (simp add: INT_MAX_def)
  then obtain r where r: "main_body (256, 512) (128, 64) rev = Inr r" ..
  show ?thesis
    using one_vectorized_launch [OF r _ _ _ _ refl refl] r
    by (simp add: thr_layout_def vec_layout_def)
qed

section \<open>The source is only read\<close>

text \<open>The launch of \<^verbatim>\<open>main\<close> leaves the source allocation alone, whatever the schedule.\<close>

lemma main_body_source_frame:
  assumes "main_body ts bs sched = Inr r"
  shows "\<exists>n. size_of ts = Inr n \<and> device_mem r d_S = map float_of_nat [0..<n]"
proof -
  from assms obtain n where sz: "size_of ts = Inr n"
    by (cases "size_of ts") (simp_all add: main_body_def)
  define dev :: device where
    "dev = (\<lambda>p. case p of d_S \<Rightarrow> map float_of_nat [0..<n]
                        | d_D \<Rightarrow> replicate n (Float32 False 0 0))"
  define S where "S = tiled_divide (make_tensor d_S (make_layout ts)) bs"
  define D where "D = tiled_divide (make_tensor d_D (make_layout ts)) bs"
  have "device_mem r d_S = map float_of_nat [0..<n]"
  proof (cases "not_divisible ts bs \<or> \<not> evenly_divides ts bs")
    case True
    then show ?thesis using assms
      by (auto simp: main_body_def sz Let_def split: if_splits)
  next
    case False
    with assms obtain dev' where
      la: "run_work_items (copy_kernel_vectorized S D thr_layout vec_layout)
             (sched (work_items (fst (tt_rest D), snd (tt_rest D), 1) (static_size thr_layout, 1, 1)))
             dev = Inr dev'"
      and r: "device_mem r = dev'"
      by (auto simp: main_body_def sz Let_def launch_def dev_def S_def D_def
          split: sum.splits prod.splits)
    have pD: "tt_ptr D = d_D" by (simp add: D_def tiled_divide_def make_tensor_def)
    have "dev' d_S = dev d_S"
    proof (rule run_work_items_frame [OF _ la])
      fix w and d d' :: device
      assume "copy_kernel_vectorized S D thr_layout vec_layout w d = Inr d'"
      then show "d' d_S = d d_S" by (rule copy_kernel_vectorized_frame) (simp add: pD)
    qed
    then show ?thesis using r by (simp add: dev_def)
  qed
  with sz show ?thesis by simp
qed

text \<open>
  C8. Neither kernel writes to the source tensor: a work item of either kernel leaves the
  allocation of the source as it was, whenever source and destination are different
  allocations. The verification loop is a function of the two host buffers and writes to
  neither. So after any run of \<^verbatim>\<open>main\<close> that returns, the source allocation on the device
  still holds \<open>0 .. 131071\<close>.
\<close>

theorem source_never_modified:
  "(copy_kernel S D thr w dev = Inr dev' \<longrightarrow> tt_ptr S \<noteq> tt_ptr D \<longrightarrow>
      dev' (tt_ptr S) = dev (tt_ptr S)) \<and>
   (copy_kernel_vectorized S D thr vec w dev = Inr dev'' \<longrightarrow> tt_ptr S \<noteq> tt_ptr D \<longrightarrow>
      dev'' (tt_ptr S) = dev (tt_ptr S)) \<and>
   (main argc argv sched = Inr r \<longrightarrow> device_mem r d_S = map float_of_nat [0..<131072])"
proof (intro conjI impI)
  assume "copy_kernel S D thr w dev = Inr dev'" "tt_ptr S \<noteq> tt_ptr D"
  then show "dev' (tt_ptr S) = dev (tt_ptr S)" by (rule copy_kernel_frame)
next
  assume "copy_kernel_vectorized S D thr vec w dev = Inr dev''" "tt_ptr S \<noteq> tt_ptr D"
  then show "dev'' (tt_ptr S) = dev (tt_ptr S)" by (rule copy_kernel_vectorized_frame)
next
  assume "main argc argv sched = Inr r"
  then have "\<exists>n. size_of (256, 512) = Inr n \<and> device_mem r d_S = map float_of_nat [0..<n]"
    unfolding main_def by (rule main_body_source_frame)
  then show "device_mem r d_S = map float_of_nat [0..<131072]"
    by (auto simp: size_of_def INT_MAX_def split: if_splits)
qed

theorem source_never_modified_witness:
  "\<exists>r. main 0 [] (\<lambda>ws. ws) = Inr r \<and>
       device_mem r d_S = map float_of_nat [0..<131072]"
proof -
  have v: "valid_schedule (256 div 128, 512 div 64, 1) (256, 1, 1) (\<lambda>ws. ws)"
    by (rule valid_schedule_id)
  have "\<exists>r. main_body (256, 512) (128, 64) (\<lambda>ws. ws) = Inr r"
    using main_body_success [OF _ _ _ _ _ _ _ _ _ v] by (simp add: INT_MAX_def)
  then obtain r where r: "main 0 [] (\<lambda>ws. ws) = Inr r"
    by (auto simp: main_def)
  then show ?thesis
    using source_never_modified [of _ _ _ _ _ _ _ _ 0 "[]" "\<lambda>ws. ws" r]
    by blast
qed

section \<open>The two kernels agree\<close>





end
